theory Spec2Isabelle
  imports Complex_Main "HOL-Library.Multiset"
begin

section \<open>Errors and arrays\<close>

text \<open>
  The notebooks have no \<^verbatim>\<open>try\<close>/\<^verbatim>\<open>except\<close>; every exception of Python, numpy, Mesa or
  Landlab is a value of \<open>error\<close>, and a function that may raise returns \<open>error + 'a\<close>
  with \<open>Inl\<close> for the exception. \<open>LibraryError\<close> stands for whatever an external
  component raises (the payload tells two such exceptions apart).

  A Python float is modelled by the real number it denotes, and the comparison of two
  floats by the comparison of the reals. What an arithmetic operation on floats
  returns is the machine's rounding and no part of the model: it is a parameter
  (\<open>fl_arith\<close> below). \<open>NonFinite\<close> is no exception of Python: it ends a run in
  which an array would receive a value that is not finite (numpy goes on with a
  warning), which the model does not follow any further.
\<close>

datatype error =
    ValueError
  | IndexError
  | TypeError
  | AttributeError
  | ZeroDivisionError
  | OverflowError
  | LibraryError nat
  | NonFinite

text \<open>
  A numpy array of floats: its shape and its buffer in C (row-major) order. numpy
  keeps \<open>prod_list (shape a) = length (data a)\<close>; \<open>a.size\<close> is the buffer length.
\<close>

record ndarray =
  shape :: "nat list"
  data :: "real list"

definition np_size :: "ndarray \<Rightarrow> nat" where
  "np_size a = length (data a)"

text \<open>\<^verbatim>\<open>a.reshape((d0, d1))\<close>: a view of the same buffer, ValueError when the cell
  counts differ.\<close>

definition np_reshape :: "ndarray \<Rightarrow> nat \<times> nat \<Rightarrow> error + ndarray" where
  "np_reshape a dims =
     (case dims of (d0, d1) \<Rightarrow>
        if np_size a = d0 * d1 then Inr (a\<lparr>shape := [d0, d1]\<rparr>) else Inl ValueError)"

text \<open>\<^verbatim>\<open>a[x, y]\<close> (and \<^verbatim>\<open>a[x][y]\<close>) with non-negative indices: IndexError outside the
  shape, and on an array that is not two-dimensional. The third condition only guards
  a record that breaks numpy's invariant; \<open>np_reshape\<close> never returns one.\<close>

definition np_getitem2 :: "ndarray \<Rightarrow> nat \<Rightarrow> nat \<Rightarrow> error + real" where
  "np_getitem2 a x y =
     (case shape a of
        [d0, d1] \<Rightarrow>
          if x < d0 \<and> y < d1 \<and> x * d1 + y < length (data a)
          then Inr (data a ! (x * d1 + y))
          else Inl IndexError
      | _ \<Rightarrow> Inl IndexError)"

section \<open>The farmer ABM (groundwater notebook)\<close>

text \<open>
  \<^verbatim>\<open>class FarmerAgent(Agent)\<close>: \<open>pos\<close> is \<open>None\<close> until Mesa's \<open>place_agent\<close> sets it.
\<close>

record farmer_agent =
  unique_id :: nat
  pos :: "(nat \<times> nat) option"
  pumping :: bool
  well_depth :: real

text \<open>
  \<^verbatim>\<open>class FarmerModel(Model)\<close>. Agents are objects shared by the schedule and the grid,
  so they live in a store \<open>objs\<close> addressed by reference; the schedule (Mesa's ordered
  dictionary of agents, in insertion order) and the cells of the \<open>MultiGrid\<close> hold
  references. The attribute \<open>wt_depth_2d\<close> does not exist before the first step.
\<close>

record farmer_model =
  num_agents :: nat
  grid_width :: nat
  grid_height :: nat
  grid_cells :: "nat \<times> nat \<Rightarrow> nat list"
  depth_to_water_table :: ndarray
  wt_depth_2d :: "ndarray option"
  schedule :: "nat list"
  objs :: "nat \<rightharpoonup> farmer_agent"

text \<open>
  \<^verbatim>\<open>FarmerAgent.step\<close>, with \<open>self.model\<close> passed as \<open>model\<close>; the mutated \<open>self\<close> is
  returned. The \<^verbatim>\<open>print\<close> calls read the same values and are left out.
\<close>

definition FarmerAgent_step :: "farmer_model \<Rightarrow> farmer_agent \<Rightarrow> error + farmer_agent" where
  "FarmerAgent_step model self =
     (case pos self of
        None \<Rightarrow> Inl TypeError
      | Some (x, y) \<Rightarrow>
          (case wt_depth_2d model of
             None \<Rightarrow> Inl AttributeError
           | Some wt \<Rightarrow>
               (case np_getitem2 wt x y of
                  Inl e \<Rightarrow> Inl e
                | Inr d \<Rightarrow>
                    if d \<ge> well_depth self
                    then Inr (self\<lparr>pumping := False\<rparr>)
                    else Inr (self\<lparr>pumping := True\<rparr>))))"

text \<open>
  \<^verbatim>\<open>self.schedule.step()\<close> of Mesa's \<open>RandomActivation\<close>: the keys of the schedule are
  shuffled and every agent still scheduled is activated once, in that order. The
  shuffled key list is the argument \<open>ks\<close>; an exception of an agent ends the pass.
\<close>

fun schedule_step :: "nat list \<Rightarrow> farmer_model \<Rightarrow> error + farmer_model" where
  "schedule_step [] m = Inr m"
| "schedule_step (k # ks) m =
     (case objs m k of
        None \<Rightarrow> schedule_step ks m
      | Some a \<Rightarrow>
          (case FarmerAgent_step m a of
             Inl e \<Rightarrow> Inl e
           | Inr a' \<Rightarrow> schedule_step ks (m\<lparr>objs := (objs m)(k \<mapsto> a')\<rparr>)))"

text \<open>\<^verbatim>\<open>FarmerModel.step\<close>; \<open>ks\<close> is the activation order drawn by the scheduler.\<close>

definition FarmerModel_step :: "nat list \<Rightarrow> farmer_model \<Rightarrow> error + farmer_model" where
  "FarmerModel_step ks m =
     (case np_reshape (depth_to_water_table m) (grid_width m, grid_height m) of
        Inl e \<Rightarrow> Inl e
      | Inr a \<Rightarrow> schedule_step ks (m\<lparr>wt_depth_2d := Some a\<rparr>))"

text \<open>
  \<^verbatim>\<open>FarmerAgent.__init__\<close> (the agent's reference is its \<open>unique_id\<close>: the constructor is
  only called with the loop index).
\<close>

definition FarmerAgent_init :: "nat \<Rightarrow> real \<Rightarrow> farmer_agent" where
  "FarmerAgent_init uid wd =
     \<lparr>unique_id = uid, pos = None, pumping = True, well_depth = wd\<rparr>"

text \<open>
  \<^verbatim>\<open>random.randrange(n)\<close>: ValueError on an empty range, otherwise some value of
  \<open>range(n)\<close>. The generator is an input of the model: \<open>r\<close> is its raw output, and
  \<open>r mod n\<close> ranges over exactly the values \<open>randrange\<close> can return.
\<close>

definition randrange :: "nat \<Rightarrow> int \<Rightarrow> error + nat" where
  "randrange r n = (if n \<le> 0 then Inl ValueError else Inr (r mod nat n))"

text \<open>
  Mesa's \<^verbatim>\<open>MultiGrid.place_agent(agent, (x, y))\<close>: the grid is \<open>width\<close> lists of \<open>height\<close>
  cells, so a coordinate outside it is an IndexError; the agent is appended to the
  cell's content and its \<open>pos\<close> is set. Coordinates are not wrapped.
\<close>

definition place_agent :: "nat \<Rightarrow> nat \<times> nat \<Rightarrow> farmer_model \<Rightarrow> error + farmer_model" where
  "place_agent agent p m =
     (case p of (x, y) \<Rightarrow>
        if x < grid_width m \<and> y < grid_height m
        then Inr (m\<lparr>grid_cells := (grid_cells m)
                       ((x, y) := (if agent \<in> set (grid_cells m (x, y)) then grid_cells m (x, y)
                                   else grid_cells m (x, y) @ [agent])),
                    objs := (objs m)(agent := map_option (\<lambda>a. a\<lparr>pos := Some (x, y)\<rparr>) (objs m agent))\<rparr>)
        else Inl IndexError)"

text \<open>
  The loop \<^verbatim>\<open>for i in range(self.num_agents)\<close> of \<^verbatim>\<open>FarmerModel.__init__\<close>. Agent \<open>i\<close>
  takes the draws \<open>rng (2 * i)\<close> and \<open>rng (2 * i + 1)\<close>; both coordinates are drawn
  from \<open>self.grid.width - 2\<close>.
\<close>

fun create_agents :: "(nat \<Rightarrow> nat) \<Rightarrow> real \<Rightarrow> nat list \<Rightarrow> farmer_model \<Rightarrow> error + farmer_model" where
  "create_agents rng wd [] m = Inr m"
| "create_agents rng wd (i # rest) m =
     (let a = FarmerAgent_init i wd;
          m1 = m\<lparr>schedule := schedule m @ [i], objs := (objs m)(i \<mapsto> a)\<rparr>
      in case randrange (rng (2 * i)) (int (grid_width m1) - 2) of
           Inl e \<Rightarrow> Inl e
         | Inr rx \<Rightarrow>
             (case randrange (rng (2 * i + 1)) (int (grid_width m1) - 2) of
                Inl e \<Rightarrow> Inl e
              | Inr ry \<Rightarrow>
                  (case place_agent i (rx + 1, ry + 1) m1 of
                     Inl e \<Rightarrow> Inl e
                   | Inr m2 \<Rightarrow> create_agents rng wd rest m2)))"

text \<open>\<^verbatim>\<open>FarmerModel.__init__(N, width, height, well_depth, depth_to_water_table)\<close>.\<close>

definition FarmerModel_init ::
  "(nat \<Rightarrow> nat) \<Rightarrow> nat \<Rightarrow> nat \<Rightarrow> nat \<Rightarrow> real \<Rightarrow> ndarray \<Rightarrow> error + farmer_model" where
  "FarmerModel_init rng N w h wd arr =
     create_agents rng wd [0..<N]
       \<lparr>num_agents = N, grid_width = w, grid_height = h, grid_cells = (\<lambda>_. []),
        depth_to_water_table = arr, wt_depth_2d = None, schedule = [], objs = Map.empty\<rparr>"

section \<open>Aggregating agent state into a field\<close>

text \<open>
  Mesa's \<^verbatim>\<open>grid.coord_iter()\<close>: every cell's content with its coordinates, \<open>x\<close> over
  \<open>range(width)\<close> outside and \<open>y\<close> over \<open>range(height)\<close> inside.
\<close>

definition coord_iter :: "farmer_model \<Rightarrow> (nat list \<times> nat \<times> nat) list" where
  "coord_iter m =
     concat (map (\<lambda>x. map (\<lambda>y. (grid_cells m (x, y), x, y)) [0..<grid_height m])
               [0..<grid_width m])"

text \<open>
  A two-dimensional integer array (\<^verbatim>\<open>np.zeros((nr, nc), dtype=int)\<close>) as its list of
  rows; \<^verbatim>\<open>a[x][y]\<close> raises IndexError when \<open>x\<close> is not a row or \<open>y\<close> not a column.
\<close>

definition np_zeros :: "nat \<Rightarrow> nat \<Rightarrow> int list list" where
  "np_zeros nr nc = replicate nr (replicate nc 0)"

definition np_get :: "int list list \<Rightarrow> nat \<Rightarrow> nat \<Rightarrow> error + int" where
  "np_get a x y =
     (if x < length a \<and> y < length (a ! x) then Inr (a ! x ! y) else Inl IndexError)"

definition np_set :: "int list list \<Rightarrow> nat \<Rightarrow> nat \<Rightarrow> int \<Rightarrow> error + int list list" where
  "np_set a x y v =
     (if x < length a \<and> y < length (a ! x) then Inr (a[x := (a ! x)[y := v]])
      else Inl IndexError)"

definition flatten :: "int list list \<Rightarrow> int list" where
  "flatten a = concat a"

text \<open>
  The state of a call of \<^verbatim>\<open>get_well_count(model)\<close>: the model it was handed (by
  reference, so whatever the call did to it would show) and its two local arrays.
\<close>

record wc_frame =
  f_model :: farmer_model
  f_well_count :: "int list list"
  f_pumping_well_count :: "int list list"

text \<open>
  \<^verbatim>\<open>for agent in cell_content: if agent.pumping: pumping_well_count[x][y] += 1\<close>.
  A cell holds agent objects; a reference with no object behind it cannot occur in
  Python and is an AttributeError of the model.
\<close>

fun count_pumping :: "nat list \<Rightarrow> nat \<Rightarrow> nat \<Rightarrow> wc_frame \<Rightarrow> error + wc_frame" where
  "count_pumping [] x y f = Inr f"
| "count_pumping (agent # rest) x y f =
     (case objs (f_model f) agent of
        None \<Rightarrow> Inl AttributeError
      | Some a \<Rightarrow>
          if pumping a
          then (case np_get (f_pumping_well_count f) x y of
                  Inl e \<Rightarrow> Inl e
                | Inr c \<Rightarrow>
                    (case np_set (f_pumping_well_count f) x y (c + 1) of
                       Inl e \<Rightarrow> Inl e
                     | Inr pw \<Rightarrow> count_pumping rest x y (f\<lparr>f_pumping_well_count := pw\<rparr>)))
          else count_pumping rest x y f)"

text \<open>\<^verbatim>\<open>for cell in model.grid.coord_iter(): ...\<close>\<close>

fun count_cells :: "(nat list \<times> nat \<times> nat) list \<Rightarrow> wc_frame \<Rightarrow> error + wc_frame" where
  "count_cells [] f = Inr f"
| "count_cells ((cell_content, x, y) # rest) f =
     (case np_set (f_well_count f) x y (int (length cell_content)) of
        Inl e \<Rightarrow> Inl e
      | Inr wc \<Rightarrow>
          (case count_pumping cell_content x y (f\<lparr>f_well_count := wc\<rparr>) of
             Inl e \<Rightarrow> Inl e
           | Inr f' \<Rightarrow> count_cells rest f'))"

text \<open>
  \<^verbatim>\<open>get_well_count(model)\<close>; \<open>nr\<close> and \<open>nc\<close> are the notebook's globals (rows and columns
  of the Landlab grid). The model is returned next to the two arrays.
\<close>

definition get_well_count ::
  "nat \<Rightarrow> nat \<Rightarrow> farmer_model \<Rightarrow> error + farmer_model \<times> int list list \<times> int list list" where
  "get_well_count nr nc m =
     (case count_cells (coord_iter m)
             \<lparr>f_model = m, f_well_count = np_zeros nr nc,
              f_pumping_well_count = np_zeros nr nc\<rparr> of
        Inl e \<Rightarrow> Inl e
      | Inr f \<Rightarrow> Inr (f_model f, f_well_count f, f_pumping_well_count f))"

section \<open>The grass map (wolf-sheep-grass notebook)\<close>

text \<open>
  Modelled from the spec: the package \<^verbatim>\<open>wolf_sheep\<close> (\<open>WolfSheep\<close>, \<open>GrassPatch\<close>) is
  imported by the notebook and is not among the sources. An agent record has an
  identity, a grid position and its state flags; the agent kinds form a closed set. The
  flag \<open>fully_grown\<close> is a grass patch's; the code reads and writes it of no other kind. The model has \<open>width\<close> and \<open>height\<close>
  and a grid of the same dimensions whose cells hold agents.
\<close>

datatype agent_kind = GrassPatch | Sheep | Wolf

record wsg_agent =
  wsg_id :: nat
  wsg_pos :: "nat \<times> nat"
  wsg_kind :: agent_kind
  fully_grown :: bool

record wsg_model =
  ws_width :: nat
  ws_height :: nat
  ws_grid_width :: nat
  ws_grid_height :: nat
  ws_grid_cells :: "nat \<times> nat \<Rightarrow> nat list"
  ws_objs :: "nat \<rightharpoonup> wsg_agent"

definition ws_coord_iter :: "wsg_model \<Rightarrow> (nat list \<times> nat \<times> nat) list" where
  "ws_coord_iter m =
     concat (map (\<lambda>x. map (\<lambda>y. (ws_grid_cells m (x, y), x, y)) [0..<ws_grid_height m])
               [0..<ws_grid_width m])"

text \<open>The state of a call of \<^verbatim>\<open>generate_grass_map(model)\<close>.\<close>

record gm_frame =
  g_model :: wsg_model
  g_grass_map :: "int list list"

text \<open>
  \<^verbatim>\<open>for agent in cell_content: if type(agent) is GrassPatch: ...\<close>; the map holds the
  floats 0.0, 1.0 and 2.0, written as integers.
\<close>

fun mark_grass :: "nat list \<Rightarrow> nat \<Rightarrow> nat \<Rightarrow> gm_frame \<Rightarrow> error + gm_frame" where
  "mark_grass [] x y f = Inr f"
| "mark_grass (agent # rest) x y f =
     (case ws_objs (g_model f) agent of
        None \<Rightarrow> Inl AttributeError
      | Some a \<Rightarrow>
          if wsg_kind a = GrassPatch
          then (case np_set (g_grass_map f) x y (if fully_grown a then 2 else 1) of
                  Inl e \<Rightarrow> Inl e
                | Inr gm \<Rightarrow> mark_grass rest x y (f\<lparr>g_grass_map := gm\<rparr>))
          else mark_grass rest x y f)"

fun mark_cells :: "(nat list \<times> nat \<times> nat) list \<Rightarrow> gm_frame \<Rightarrow> error + gm_frame" where
  "mark_cells [] f = Inr f"
| "mark_cells ((cell_content, x, y) # rest) f =
     (case mark_grass cell_content x y f of
        Inl e \<Rightarrow> Inl e
      | Inr f' \<Rightarrow> mark_cells rest f')"

text \<open>\<^verbatim>\<open>generate_grass_map(model)\<close>; the model is returned next to the map.\<close>

definition generate_grass_map :: "wsg_model \<Rightarrow> error + wsg_model \<times> int list list" where
  "generate_grass_map m =
     (case mark_cells (ws_coord_iter m)
             \<lparr>g_model = m, g_grass_map = np_zeros (ws_grid_width m) (ws_grid_height m)\<rparr> of
        Inl e \<Rightarrow> Inl e
      | Inr f \<Rightarrow> Inr (g_model f, g_grass_map f))"

section \<open>Float arithmetic\<close>

text \<open>
  A value of a float expression: a finite number, an infinity or a nan. The arrays the
  loops keep hold finite values (reals); a value that is not finite can arise inside an
  expression, and an expression can still have a finite value then (\<^verbatim>\<open>exp\<close> of minus
  infinity is zero). Where an array would receive a value that is not finite, the run
  ends with \<open>NonFinite\<close>.
\<close>

datatype fl = Fin real | PInf | NInf | NaN

text \<open>
  The machine's operations on such values, with their rounding, are a parameter;
  everything below holds for every such arithmetic. The operations are numpy's on
  array elements, which raise nothing, and Python's on floats, of which the division
  raises for a divisor zero before it is tried. Negation is exact.
\<close>

record fl_arith =
  fl_add :: "fl \<Rightarrow> fl \<Rightarrow> fl"
  fl_sub :: "fl \<Rightarrow> fl \<Rightarrow> fl"
  fl_mul :: "fl \<Rightarrow> fl \<Rightarrow> fl"
  fl_div :: "fl \<Rightarrow> fl \<Rightarrow> fl"
  fl_exp :: "fl \<Rightarrow> fl"

fun fl_neg :: "fl \<Rightarrow> fl" where
  "fl_neg (Fin x) = Fin (- x)"
| "fl_neg PInf = NInf"
| "fl_neg NInf = PInf"
| "fl_neg NaN = NaN"

text \<open>The values of an array that is about to be stored.\<close>

fun finite_array :: "fl list \<Rightarrow> error + real list" where
  "finite_array [] = Inr []"
| "finite_array (Fin x # xs) =
     (case finite_array xs of Inl e \<Rightarrow> Inl e | Inr ys \<Rightarrow> Inr (x # ys))"
| "finite_array (v # xs) = Inl NonFinite"

text \<open>
  One-dimensional float arrays (Landlab fields at nodes) are lists. A binary operation
  \<^verbatim>\<open>a - b\<close> on two arrays follows numpy's broadcasting: equal lengths, or one side of
  length 1; anything else is a ValueError. Its result is a temporary. An in-place
  operation \<^verbatim>\<open>target += src\<close> and the assignment \<^verbatim>\<open>target[:] = src\<close> broadcast the
  right-hand side to the target and keep the target's length.
\<close>

definition np_binary ::
  "(fl \<Rightarrow> fl \<Rightarrow> fl) \<Rightarrow> real list \<Rightarrow> real list \<Rightarrow> error + fl list" where
  "np_binary f a b =
     (if length a = length b then Inr (map2 (\<lambda>x y. f (Fin x) (Fin y)) a b)
      else if length b = 1 then Inr (map (\<lambda>x. f (Fin x) (Fin (hd b))) a)
      else if length a = 1 then Inr (map (\<lambda>y. f (Fin (hd a)) (Fin y)) b)
      else Inl ValueError)"

definition np_sub :: "fl_arith \<Rightarrow> real list \<Rightarrow> real list \<Rightarrow> error + fl list" where
  "np_sub F a b = np_binary (fl_sub F) a b"

definition np_inplace ::
  "(fl \<Rightarrow> fl \<Rightarrow> fl) \<Rightarrow> real list \<Rightarrow> fl list \<Rightarrow> error + real list" where
  "np_inplace f target src =
     (if length src = length target then finite_array (map2 (\<lambda>t s. f (Fin t) s) target src)
      else if length src = 1 then finite_array (map (\<lambda>t. f (Fin t) (hd src)) target)
      else Inl ValueError)"

definition np_assign :: "real list \<Rightarrow> fl list \<Rightarrow> error + real list" where
  "np_assign target src =
     (if length src = length target then finite_array src
      else if length src = 1 then finite_array (replicate (length target) (hd src))
      else Inl ValueError)"

text \<open>\<^verbatim>\<open>np.amax(a)\<close> raises ValueError on an empty array.\<close>

definition np_amax :: "real list \<Rightarrow> error + real" where
  "np_amax a = (if a = [] then Inl ValueError else Inr (Max (set a)))"

section \<open>The groundwater coupling loop\<close>

text \<open>
  What is outside the notebook, Landlab's grid with its \<open>GroundwaterDupuitPercolator\<close>
  and the figures drawn so far, is a state of some type \<open>'g\<close>. The notebook reads
  the fields \<open>topographic__elevation\<close> and \<open>water_table__elevation\<close> of it;
  \<^verbatim>\<open>gdp.run_one_step(dt)\<close> advances it, reading the recharge field, and
  \<^verbatim>\<open>imshow_grid(grid, values)\<close> draws a field. Both may raise, and then leave the
  outside in some state too: a call returns \<open>Inr\<close> of the new state, or \<open>Inl\<close> of the
  exception and the state at the raise.
\<close>

record 'g landlab =
  run_one_step :: "real \<Rightarrow> real list \<Rightarrow> 'g \<Rightarrow> (error \<times> 'g) + 'g"
  elev_of :: "'g \<Rightarrow> real list"
  wt_of :: "'g \<Rightarrow> real list"
  imshow_grid :: "'g \<Rightarrow> real list \<Rightarrow> (error \<times> 'g) + 'g"

text \<open>The notebook's parameters (globals that the loop only reads).\<close>

record params =
  dt :: real
  dx :: real
  pumping_rate :: real
  nr :: nat
  nc :: nat
  run_duration_yrs :: nat

text \<open>
  The state the groundwater loop works on. The field \<open>depth_to_wt\<close> and the farmer
  model's \<open>depth_to_water_table\<close> are views of one buffer (the model was built with
  \<^verbatim>\<open>depth_to_wt.reshape((nr, nc))\<close>): the buffer is kept once, in the model, and an
  in-place assignment to \<open>depth_to_wt\<close> writes it there.

  A statement of the loop returns \<open>Inr\<close> of the state it leaves, or \<open>Inl\<close> of the
  exception it raises and the state at the raise: what was written before stays
  written.
\<close>

record 'g world =
  gdp :: 'g
  recharge :: "real list"
  farmer_model :: farmer_model
  well_count :: "int list list"
  pumping_well_count :: "int list list"

text \<open>
  \<^verbatim>\<open>int(365.25 * 3600.0 * 24 / dt)\<close>. The two products are exact in binary floating
  point (1314900 and 31557600 are integers below \<open>2 ^ 53\<close>). Python's float division
  by zero raises; \<open>int\<close> raises OverflowError of an infinity and ValueError of a nan,
  and truncates a finite quotient towards zero.
\<close>

definition num_iter :: "fl_arith \<Rightarrow> real \<Rightarrow> error + int" where
  "num_iter F d =
     (if d = 0 then Inl ZeroDivisionError
      else (case fl_div F (Fin (365.25 * 3600 * 24)) (Fin d) of
              Fin q \<Rightarrow> Inr (if q \<ge> 0 then \<lfloor>q\<rfloor> else \<lceil>q\<rceil>)
            | PInf \<Rightarrow> Inl OverflowError
            | NInf \<Rightarrow> Inl OverflowError
            | NaN \<Rightarrow> Inl ValueError))"

text \<open>\<^verbatim>\<open>for i in range(num_iter): gdp.run_one_step(dt)\<close>, \<open>k\<close> calls to go.\<close>

fun run_steps :: "'g landlab \<Rightarrow> real \<Rightarrow> nat \<Rightarrow> 'g world \<Rightarrow> (error \<times> 'g world) + 'g world" where
  "run_steps L d 0 w = Inr w"
| "run_steps L d (Suc k) w =
     (case run_one_step L d (recharge w) (gdp w) of
        Inl (e, g) \<Rightarrow> Inl (e, w\<lparr>gdp := g\<rparr>)
      | Inr g \<Rightarrow> run_steps L d k (w\<lparr>gdp := g\<rparr>))"

text \<open>\<^verbatim>\<open>run_for_one_year(gdp, dt)\<close>; a negative count is an empty range.\<close>

definition run_for_one_year ::
  "fl_arith \<Rightarrow> 'g landlab \<Rightarrow> real \<Rightarrow> 'g world \<Rightarrow> (error \<times> 'g world) + 'g world" where
  "run_for_one_year F L d w =
     (case num_iter F d of Inl e \<Rightarrow> Inl (e, w) | Inr n \<Rightarrow> run_steps L d (nat n) w)"

text \<open>\<^verbatim>\<open>depth_to_wt[:] = elev - wt\<close>\<close>

definition update_depth ::
  "fl_arith \<Rightarrow> 'g landlab \<Rightarrow> 'g world \<Rightarrow> (error \<times> 'g world) + 'g world" where
  "update_depth F L w =
     (case np_sub F (elev_of L (gdp w)) (wt_of L (gdp w)) of
        Inl e \<Rightarrow> Inl (e, w)
      | Inr diff \<Rightarrow>
          (case np_assign (data (depth_to_water_table (farmer_model w))) diff of
             Inl e \<Rightarrow> Inl (e, w)
           | Inr buf \<Rightarrow>
               Inr (w\<lparr>farmer_model := (farmer_model w)
                         \<lparr>depth_to_water_table :=
                            (depth_to_water_table (farmer_model w))\<lparr>data := buf\<rparr>\<rparr>\<rparr>)))"

text \<open>
  The farmer model as a step leaves it, whether the step returns or raises: the agents
  activated before the one that raises keep their new flags, and none is activated
  after it.
\<close>

fun schedule_left :: "nat list \<Rightarrow> farmer_model \<Rightarrow> farmer_model" where
  "schedule_left [] m = m"
| "schedule_left (k # ks) m =
     (case objs m k of
        None \<Rightarrow> schedule_left ks m
      | Some a \<Rightarrow>
          (case FarmerAgent_step m a of
             Inl e \<Rightarrow> m
           | Inr a' \<Rightarrow> schedule_left ks (m\<lparr>objs := (objs m)(k \<mapsto> a')\<rparr>)))"

definition FarmerModel_left :: "nat list \<Rightarrow> farmer_model \<Rightarrow> farmer_model" where
  "FarmerModel_left ks m =
     (case np_reshape (depth_to_water_table m) (grid_width m, grid_height m) of
        Inl e \<Rightarrow> m
      | Inr a \<Rightarrow> schedule_left ks (m\<lparr>wt_depth_2d := Some a\<rparr>))"

text \<open>\<^verbatim>\<open>farmer_model.step()\<close>\<close>

definition step_farmers :: "nat list \<Rightarrow> 'g world \<Rightarrow> (error \<times> 'g world) + 'g world" where
  "step_farmers ks w =
     (case FarmerModel_step ks (farmer_model w) of
        Inl e \<Rightarrow> Inl (e, w\<lparr>farmer_model := FarmerModel_left ks (farmer_model w)\<rparr>)
      | Inr fm \<Rightarrow> Inr (w\<lparr>farmer_model := fm\<rparr>))"

text \<open>
  \<^verbatim>\<open>well_count, pumping_well_count = get_well_count(farmer_model)\<close> and the two prints
  that follow; of these only \<^verbatim>\<open>np.amax(depth_to_wt)\<close> can raise, after the two arrays
  were assigned.
\<close>

definition count_wells :: "params \<Rightarrow> 'g world \<Rightarrow> (error \<times> 'g world) + 'g world" where
  "count_wells P w =
     (case get_well_count (nr P) (nc P) (farmer_model w) of
        Inl e \<Rightarrow> Inl (e, w)
      | Inr (fm, wc, pwc) \<Rightarrow>
          (case np_amax (data (depth_to_water_table fm)) of
             Inl e \<Rightarrow>
               Inl (e, w\<lparr>farmer_model := fm, well_count := wc, pumping_well_count := pwc\<rparr>)
           | Inr mx \<Rightarrow>
               Inr (w\<lparr>farmer_model := fm, well_count := wc, pumping_well_count := pwc\<rparr>)))"

text \<open>
  The Python float \<^verbatim>\<open>-(pumping_rate / (dx * dx))\<close>. The product \<open>dx * dx\<close> may
  underflow to zero, and then the division raises.
\<close>

definition recharge_factor :: "fl_arith \<Rightarrow> params \<Rightarrow> error + fl" where
  "recharge_factor F P =
     (if fl_mul F (Fin (dx P)) (Fin (dx P)) = Fin 0 then Inl ZeroDivisionError
      else Inr (fl_neg (fl_div F (Fin (pumping_rate P)) (fl_mul F (Fin (dx P)) (Fin (dx P))))))"

text \<open>
  The temporary \<^verbatim>\<open>-(pumping_rate / (dx * dx)) * pumping_well_count.flatten()\<close>: the
  counts are converted to floats (exactly: a count is far below \<open>2 ^ 53\<close>) and
  multiplied one by one.
\<close>

definition recharge_values :: "fl_arith \<Rightarrow> params \<Rightarrow> int list \<Rightarrow> error + fl list" where
  "recharge_values F P counts =
     (case recharge_factor F P of
        Inl e \<Rightarrow> Inl e
      | Inr c \<Rightarrow> Inr (map (\<lambda>k. fl_mul F c (Fin (real_of_int k))) counts))"

text \<open>
  \<^verbatim>\<open>recharge[:] = -(pumping_rate / (dx * dx)) * pumping_well_count.flatten()\<close>; the
  print that follows reads the field.
\<close>

definition update_recharge ::
  "fl_arith \<Rightarrow> params \<Rightarrow> 'g world \<Rightarrow> (error \<times> 'g world) + 'g world" where
  "update_recharge F P w =
     (case recharge_values F P (flatten (pumping_well_count w)) of
        Inl e \<Rightarrow> Inl (e, w)
      | Inr values \<Rightarrow>
          (case np_assign (recharge w) values of
             Inl e \<Rightarrow> Inl (e, w)
           | Inr r \<Rightarrow> Inr (w\<lparr>recharge := r\<rparr>)))"

text \<open>
  \<^verbatim>\<open>plt.figure()\<close> and \<^verbatim>\<open>imshow_grid(grid, wt)\<close>: the new figure and the plot
  in it are one call of the outside.
\<close>

definition plot_water_table :: "'g landlab \<Rightarrow> 'g world \<Rightarrow> (error \<times> 'g world) + 'g world" where
  "plot_water_table L w =
     (case imshow_grid L (gdp w) (wt_of L (gdp w)) of
        Inl (e, g) \<Rightarrow> Inl (e, w\<lparr>gdp := g\<rparr>)
      | Inr g \<Rightarrow> Inr (w\<lparr>gdp := g\<rparr>))"

text \<open>
  The body of \<^verbatim>\<open>for i in range(run_duration_yrs)\<close>; \<open>ks\<close> is the activation order the
  scheduler draws in this year.
\<close>

definition coupling_step ::
  "fl_arith \<Rightarrow> 'g landlab \<Rightarrow> params \<Rightarrow> nat list \<Rightarrow> 'g world \<Rightarrow> (error \<times> 'g world) + 'g world" where
  "coupling_step F L P ks w =
     (case run_for_one_year F L (dt P) w of
        Inl x \<Rightarrow> Inl x
      | Inr w1 \<Rightarrow>
          (case update_depth F L w1 of
             Inl x \<Rightarrow> Inl x
           | Inr w2 \<Rightarrow>
               (case step_farmers ks w2 of
                  Inl x \<Rightarrow> Inl x
                | Inr w3 \<Rightarrow>
                    (case count_wells P w3 of
                       Inl x \<Rightarrow> Inl x
                     | Inr w4 \<Rightarrow>
                         (case update_recharge F P w4 of
                            Inl x \<Rightarrow> Inl x
                          | Inr w5 \<Rightarrow> plot_water_table L w5)))))"

text \<open>The loop over the years \<open>years\<close>; \<open>order_of i\<close> is the activation order of year \<open>i\<close>.\<close>

fun coupling_years ::
  "fl_arith \<Rightarrow> 'g landlab \<Rightarrow> params \<Rightarrow> (nat \<Rightarrow> nat list) \<Rightarrow> nat list \<Rightarrow> 'g world \<Rightarrow>
     (error \<times> 'g world) + 'g world" where
  "coupling_years F L P order_of [] w = Inr w"
| "coupling_years F L P order_of (i # years) w =
     (case coupling_step F L P (order_of i) w of
        Inl x \<Rightarrow> Inl x
      | Inr w' \<Rightarrow> coupling_years F L P order_of years w')"


text \<open>
  \<open>k\<close> solver steps in a row on the recharge \<open>r\<close>: what \<^verbatim>\<open>run_for_one_year\<close> is meant
  to do to the outside.
\<close>

fun solver_steps :: "'g landlab \<Rightarrow> real \<Rightarrow> real list \<Rightarrow> nat \<Rightarrow> 'g \<Rightarrow> (error \<times> 'g) + 'g" where
  "solver_steps L d r 0 g = Inr g"
| "solver_steps L d r (Suc k) g =
     (case run_one_step L d r g of
        Inl x \<Rightarrow> Inl x
      | Inr g' \<Rightarrow> solver_steps L d r k g')"

section \<open>The wolf-sheep-grass coupling loop\<close>

text \<open>
  \<^verbatim>\<open>for agent in cell_content: if type(agent) is GrassPatch: agent.fully_grown = False\<close>
\<close>

fun stunt_grass :: "nat list \<Rightarrow> wsg_model \<Rightarrow> error + wsg_model" where
  "stunt_grass [] m = Inr m"
| "stunt_grass (agent # rest) m =
     (case ws_objs m agent of
        None \<Rightarrow> Inl AttributeError
      | Some a \<Rightarrow>
          if wsg_kind a = GrassPatch
          then stunt_grass rest (m\<lparr>ws_objs := (ws_objs m)(agent \<mapsto> a\<lparr>fully_grown := False\<rparr>)\<rparr>)
          else stunt_grass rest m)"

text \<open>The loop over the cells of \<^verbatim>\<open>limit_grass_by_soil\<close>.\<close>

fun limit_cells ::
  "(nat list \<times> nat \<times> nat) list \<Rightarrow> ndarray \<Rightarrow> real \<Rightarrow> wsg_model \<Rightarrow> error + wsg_model" where
  "limit_cells [] soilmatrix min_soil_depth m = Inr m"
| "limit_cells ((cell_content, x, y) # rest) soilmatrix min_soil_depth m =
     (case np_getitem2 soilmatrix x y of
        Inl e \<Rightarrow> Inl e
      | Inr s \<Rightarrow>
          if s < min_soil_depth
          then (case stunt_grass cell_content m of
                  Inl e \<Rightarrow> Inl e
                | Inr m' \<Rightarrow> limit_cells rest soilmatrix min_soil_depth m')
          else limit_cells rest soilmatrix min_soil_depth m)"

text \<open>\<^verbatim>\<open>limit_grass_by_soil(wsg_model, soil, min_soil_depth)\<close>\<close>

definition limit_grass_by_soil :: "wsg_model \<Rightarrow> ndarray \<Rightarrow> real \<Rightarrow> error + wsg_model" where
  "limit_grass_by_soil m soil_field min_soil_depth =
     (case np_reshape soil_field (ws_width m, ws_height m) of
        Inl e \<Rightarrow> Inl e
      | Inr soilmatrix \<Rightarrow> limit_cells (ws_coord_iter m) soilmatrix min_soil_depth m)"

text \<open>
  \<^verbatim>\<open>target[mask] = v\<close> with a boolean mask (IndexError when the mask has another
  length).
\<close>

definition np_mask_assign :: "real list \<Rightarrow> bool list \<Rightarrow> real \<Rightarrow> error + real list" where
  "np_mask_assign target sel v =
     (if length sel = length target
      then Inr (map2 (\<lambda>t b. if b then v else t) target sel)
      else Inl IndexError)"

text \<open>
  The external collaborators of the second notebook: Landlab's grid with its
  \<open>LinearDiffuser\<close> (a state of type \<open>'d\<close>, advanced by \<^verbatim>\<open>diffuser.run_one_step(dt)\<close>,
  which reads the creep coefficient) and the step of the \<open>WolfSheep\<close> model.

  Modelled from the spec: \<^verbatim>\<open>WolfSheep.step\<close> is not among the sources; it is "advance
  all agents by one activation step", some function of the model that may raise.
\<close>

record 'd creep =
  diffuser_run_one_step :: "real \<Rightarrow> real list \<Rightarrow> 'd \<Rightarrow> error + 'd"
  creep_elev_of :: "'d \<Rightarrow> real list"
  ws_step :: "wsg_model \<Rightarrow> error + wsg_model"

record wsg_params =
  fast_creep :: real
  slow_creep :: real
  hstar :: real
  min_depth_for_grass :: real
  creep_dt :: real

record 'd wsg_world =
  rmg :: 'd
  ws :: wsg_model
  gm :: "int list list"
  creep_coef :: "real list"
  soil :: "real list"
  prior_elev :: "real list"

text \<open>\<^verbatim>\<open>gm = generate_grass_map(ws)\<close>\<close>

definition map_grass :: "'d wsg_world \<Rightarrow> error + 'd wsg_world" where
  "map_grass w =
     (case generate_grass_map (ws w) of
        Inl e \<Rightarrow> Inl e
      | Inr (m, g) \<Rightarrow> Inr (w\<lparr>ws := m, gm := g\<rparr>))"

text \<open>
  The temporary \<^verbatim>\<open>1.0 - np.exp(-soil / hstar)\<close>, element by element. numpy's division
  by a zero \<open>hstar\<close> raises nothing.
\<close>

definition soil_factor :: "fl_arith \<Rightarrow> wsg_params \<Rightarrow> real list \<Rightarrow> fl list" where
  "soil_factor F P s =
     map (\<lambda>x. fl_sub F (Fin 1) (fl_exp F (fl_div F (fl_neg (Fin x)) (Fin (hstar P))))) s"

text \<open>
  \<^verbatim>\<open>creep_coef[gm.flatten()==1] = fast_creep\<close>, \<^verbatim>\<open>creep_coef[gm.flatten()==2] = slow_creep\<close>
  and \<^verbatim>\<open>creep_coef *= 1.0 - np.exp(-soil / hstar)\<close>.
\<close>

definition set_creep :: "fl_arith \<Rightarrow> wsg_params \<Rightarrow> 'd wsg_world \<Rightarrow> error + 'd wsg_world" where
  "set_creep F P w =
     (case np_mask_assign (creep_coef w) (map (\<lambda>v. v = 1) (flatten (gm w))) (fast_creep P) of
        Inl e \<Rightarrow> Inl e
      | Inr c1 \<Rightarrow>
          (case np_mask_assign c1 (map (\<lambda>v. v = 2) (flatten (gm w))) (slow_creep P) of
             Inl e \<Rightarrow> Inl e
           | Inr c2 \<Rightarrow>
               (case np_inplace (fl_mul F) c2 (soil_factor F P (soil w)) of
                  Inl e \<Rightarrow> Inl e
                | Inr c3 \<Rightarrow> Inr (w\<lparr>creep_coef := c3\<rparr>))))"

text \<open>\<^verbatim>\<open>prior_elev[:] = elev\<close> and \<^verbatim>\<open>diffuser.run_one_step(dt)\<close>\<close>

definition run_diffuser :: "'d creep \<Rightarrow> wsg_params \<Rightarrow> 'd wsg_world \<Rightarrow> error + 'd wsg_world" where
  "run_diffuser L P w =
     (case np_assign (prior_elev w) (map Fin (creep_elev_of L (rmg w))) of
        Inl e \<Rightarrow> Inl e
      | Inr pe \<Rightarrow>
          (case diffuser_run_one_step L (creep_dt P) (creep_coef w) (rmg w) of
             Inl e \<Rightarrow> Inl e
           | Inr g \<Rightarrow> Inr (w\<lparr>prior_elev := pe, rmg := g\<rparr>)))"

text \<open>\<^verbatim>\<open>soil += elev - prior_elev\<close>\<close>

definition update_soil :: "fl_arith \<Rightarrow> 'd creep \<Rightarrow> 'd wsg_world \<Rightarrow> error + 'd wsg_world" where
  "update_soil F L w =
     (case np_sub F (creep_elev_of L (rmg w)) (prior_elev w) of
        Inl e \<Rightarrow> Inl e
      | Inr diff \<Rightarrow>
          (case np_inplace (fl_add F) (soil w) diff of
             Inl e \<Rightarrow> Inl e
           | Inr s \<Rightarrow> Inr (w\<lparr>soil := s\<rparr>)))"

text \<open>\<^verbatim>\<open>limit_grass_by_soil(ws, soil, min_depth_for_grass)\<close>; \<open>soil\<close> is one-dimensional.\<close>

definition limit_grass :: "wsg_params \<Rightarrow> 'd wsg_world \<Rightarrow> error + 'd wsg_world" where
  "limit_grass P w =
     (case limit_grass_by_soil (ws w) \<lparr>shape = [length (soil w)], data = soil w\<rparr>
             (min_depth_for_grass P) of
        Inl e \<Rightarrow> Inl e
      | Inr m \<Rightarrow> Inr (w\<lparr>ws := m\<rparr>))"

text \<open>\<^verbatim>\<open>ws.step()\<close>\<close>

definition step_ws :: "'d creep \<Rightarrow> 'd wsg_world \<Rightarrow> error + 'd wsg_world" where
  "step_ws L w =
     (case ws_step L (ws w) of
        Inl e \<Rightarrow> Inl e
      | Inr m \<Rightarrow> Inr (w\<lparr>ws := m\<rparr>))"

text \<open>The body of the notebook's main loop, \<^verbatim>\<open>for i in range(50)\<close>.\<close>

definition wsg_step ::
  "fl_arith \<Rightarrow> 'd creep \<Rightarrow> wsg_params \<Rightarrow> 'd wsg_world \<Rightarrow> error + 'd wsg_world" where
  "wsg_step F L P w =
     (case map_grass w of
        Inl e \<Rightarrow> Inl e
      | Inr w1 \<Rightarrow>
          (case set_creep F P w1 of
             Inl e \<Rightarrow> Inl e
           | Inr w2 \<Rightarrow>
               (case run_diffuser L P w2 of
                  Inl e \<Rightarrow> Inl e
                | Inr w3 \<Rightarrow>
                    (case update_soil F L w3 of
                       Inl e \<Rightarrow> Inl e
                     | Inr w4 \<Rightarrow>
                         (case limit_grass P w4 of
                            Inl e \<Rightarrow> Inl e
                          | Inr w5 \<Rightarrow> step_ws L w5)))))"

fun wsg_loop ::
  "fl_arith \<Rightarrow> 'd creep \<Rightarrow> wsg_params \<Rightarrow> nat \<Rightarrow> 'd wsg_world \<Rightarrow> error + 'd wsg_world" where
  "wsg_loop F L P 0 w = Inr w"
| "wsg_loop F L P (Suc n) w =
     (case wsg_step F L P w of Inl e \<Rightarrow> Inl e | Inr w' \<Rightarrow> wsg_loop F L P n w')"
section \<open>Concrete scenarios\<close>

text \<open>
  The end-to-end scenario: a 3 by 3 agent grid with one agent at (1, 1), well depth 5.0,
  and the depth \<open>d\<close> at every cell, as \<open>FarmerModel.__init__\<close> leaves it (lemma
  \<open>scenario_init\<close> below).
\<close>

definition scenario :: "real \<Rightarrow> farmer_model" where
  "scenario d =
     \<lparr>num_agents = 1, grid_width = 3, grid_height = 3,
      grid_cells = (\<lambda>_. [])((1, 1) := [0]),
      depth_to_water_table = \<lparr>shape = [3, 3], data = replicate 9 d\<rparr>,
      wt_depth_2d = None, schedule = [0],
      objs = [0 \<mapsto> \<lparr>unique_id = 0, pos = Some (1, 1), pumping = True, well_depth = 5\<rparr>]\<rparr>"

text \<open>
  A 2 by 2 wolf-sheep-grass model: a grass patch in every cell, fully grown except the
  one at (0, 1), where a sheep stands too.
\<close>

definition pasture :: wsg_model where
  "pasture =
     \<lparr>ws_width = 2, ws_height = 2, ws_grid_width = 2, ws_grid_height = 2,
      ws_grid_cells = (\<lambda>_. [])((0, 0) := [0], (0, 1) := [1, 4], (1, 0) := [2], (1, 1) := [3]),
      ws_objs = [0 \<mapsto> \<lparr>wsg_id = 0, wsg_pos = (0, 0), wsg_kind = GrassPatch, fully_grown = True\<rparr>,
                 1 \<mapsto> \<lparr>wsg_id = 1, wsg_pos = (0, 1), wsg_kind = GrassPatch, fully_grown = False\<rparr>,
                 2 \<mapsto> \<lparr>wsg_id = 2, wsg_pos = (1, 0), wsg_kind = GrassPatch, fully_grown = True\<rparr>,
                 3 \<mapsto> \<lparr>wsg_id = 3, wsg_pos = (1, 1), wsg_kind = GrassPatch, fully_grown = True\<rparr>,
                 4 \<mapsto> \<lparr>wsg_id = 4, wsg_pos = (0, 1), wsg_kind = Sheep, fully_grown = False\<rparr>]\<rparr>"


text \<open>
  Two farmers on a 4 by 4 grid, one over a water table at depth 6, one over a water
  table at depth 4, as the constructor leaves them (lemma \<open>two_farmers_init\<close> below),
  and the same model after one step.
\<close>

definition two_farmers :: farmer_model where
  "two_farmers =
     \<lparr>num_agents = 2, grid_width = 4, grid_height = 4,
      grid_cells = (\<lambda>_. [])((1, 1) := [0], (2, 2) := [1]),
      depth_to_water_table =
        \<lparr>shape = [4, 4], data = [0, 0, 0, 0, 0, 6, 0, 0, 0, 0, 4, 0, 0, 0, 0, 0]\<rparr>,
      wt_depth_2d = None, schedule = [0, 1],
      objs = [0 \<mapsto> \<lparr>unique_id = 0, pos = Some (1, 1), pumping = True, well_depth = 5\<rparr>,
              1 \<mapsto> \<lparr>unique_id = 1, pos = Some (2, 2), pumping = True, well_depth = 5\<rparr>]\<rparr>"

definition two_farmers_stepped :: farmer_model where
  "two_farmers_stepped =
     two_farmers
       \<lparr>wt_depth_2d :=
          Some \<lparr>shape = [4, 4], data = [0, 0, 0, 0, 0, 6, 0, 0, 0, 0, 4, 0, 0, 0, 0, 0]\<rparr>,
        objs := [0 \<mapsto> \<lparr>unique_id = 0, pos = Some (1, 1), pumping = False, well_depth = 5\<rparr>,
                 1 \<mapsto> \<lparr>unique_id = 1, pos = Some (2, 2), pumping = True, well_depth = 5\<rparr>]\<rparr>"
























section \<open>Notions used in the proofs\<close>

text \<open>
  What a pass over the keys \<open>K\<close> leaves in the agent store, and when it raises nothing:
  both depend on the set of keys only.
\<close>

definition agent_next :: "farmer_model \<Rightarrow> farmer_agent \<Rightarrow> farmer_agent" where
  "agent_next m a = (case FarmerAgent_step m a of Inl e \<Rightarrow> a | Inr a' \<Rightarrow> a')"

definition activated :: "farmer_model \<Rightarrow> nat set \<Rightarrow> nat \<rightharpoonup> farmer_agent" where
  "activated m K = (\<lambda>k. if k \<in> K then map_option (agent_next m) (objs m k) else objs m k)"

definition all_ok :: "farmer_model \<Rightarrow> nat set \<Rightarrow> bool" where
  "all_ok m K = (\<forall>k\<in>K. \<forall>a. objs m k = Some a \<longrightarrow> (\<exists>a'. FarmerAgent_step m a = Inr a'))"

text \<open>Two farmer models that the well count cannot tell apart.\<close>

definition same_flags :: "farmer_model \<Rightarrow> farmer_model \<Rightarrow> bool" where
  "same_flags m1 m2 =
     (grid_width m1 = grid_width m2 \<and> grid_height m1 = grid_height m2 \<and>
      grid_cells m1 = grid_cells m2 \<and>
      (\<forall>k. map_option pumping (objs m1 k) = map_option pumping (objs m2 k)))"

definition frames_agree :: "wc_frame \<Rightarrow> wc_frame \<Rightarrow> bool" where
  "frames_agree f1 f2 =
     (f_well_count f1 = f_well_count f2 \<and> f_pumping_well_count f1 = f_pumping_well_count f2 \<and>
      same_flags (f_model f1) (f_model f2))"

text \<open>Two wolf-sheep-grass models that the grass map cannot tell apart.\<close>

definition same_grass :: "wsg_model \<Rightarrow> wsg_model \<Rightarrow> bool" where
  "same_grass m1 m2 =
     (ws_grid_width m1 = ws_grid_width m2 \<and> ws_grid_height m1 = ws_grid_height m2 \<and>
      ws_grid_cells m1 = ws_grid_cells m2 \<and>
      (\<forall>k. map_option (\<lambda>a. (wsg_kind a, fully_grown a)) (ws_objs m1 k) =
           map_option (\<lambda>a. (wsg_kind a, fully_grown a)) (ws_objs m2 k)))"

definition maps_agree :: "gm_frame \<Rightarrow> gm_frame \<Rightarrow> bool" where
  "maps_agree f1 f2 = (g_grass_map f1 = g_grass_map f2 \<and> same_grass (g_model f1) (g_model f2))"

text \<open>Agent \<open>i\<close> stands on the grid once, at its own position, inside the bounds drawn
  from the width \<open>w\<close>.\<close>

definition placed :: "nat \<Rightarrow> farmer_model \<Rightarrow> nat \<Rightarrow> bool" where
  "placed w m i =
     (\<exists>a x y. objs m i = Some a \<and> pos a = Some (x, y) \<and>
        1 \<le> x \<and> x \<le> w - 2 \<and> 1 \<le> y \<and> y \<le> w - 2 \<and>
        (\<forall>c. count_list (grid_cells m c) i = (if c = (x, y) then 1 else 0)))"


text \<open>
  A farmer model the loop can work on: its field has one cell per cell of the agent
  grid, every agent stands on the grid, and the cells hold agents that exist.
\<close>

definition fm_ready :: "farmer_model \<Rightarrow> bool" where
  "fm_ready fm =
     (np_size (depth_to_water_table fm) = grid_width fm * grid_height fm \<and>
      (\<forall>k a. objs fm k = Some a \<longrightarrow>
         (\<exists>x y. pos a = Some (x, y) \<and> x < grid_width fm \<and> y < grid_height fm)) \<and>
      (\<forall>x y. set (grid_cells fm (x, y)) \<subseteq> dom (objs fm)))"






text \<open>What the loop never changes: the agent grid's dimensions and the field's cell count.\<close>

definition same_dims :: "farmer_model \<Rightarrow> farmer_model \<Rightarrow> bool" where
  "same_dims m m' =
     (np_size (depth_to_water_table m') = np_size (depth_to_water_table m) \<and>
      grid_width m' = grid_width m \<and> grid_height m' = grid_height m)"

section \<open>One activation pass\<close>

lemma agent_step_model_indep:
  "wt_depth_2d m1 = wt_depth_2d m2 \<Longrightarrow> FarmerAgent_step m1 a = FarmerAgent_step m2 a"
  by (simp add: FarmerAgent_step_def split: option.splits prod.splits)

lemma agent_step_objs_upd:
  "FarmerAgent_step (m\<lparr>objs := f\<rparr>) b = FarmerAgent_step m b"
  by (rule agent_step_model_indep) simp

lemma agent_step_Inr:
  "FarmerAgent_step m a = Inr a' \<Longrightarrow>
   \<exists>x y wt d. pos a = Some (x, y) \<and> wt_depth_2d m = Some wt \<and> np_getitem2 wt x y = Inr d
      \<and> a' = a\<lparr>pumping := \<not> (d \<ge> well_depth a)\<rparr>"
  by (auto simp: FarmerAgent_step_def split: option.splits sum.splits if_splits prod.splits)

lemma agent_step_idem:
  "FarmerAgent_step m a = Inr a' \<Longrightarrow> FarmerAgent_step m a' = Inr a'"
  by (auto simp: FarmerAgent_step_def split: option.splits sum.splits if_splits prod.splits)

lemma agent_next_objs_upd: "agent_next (m\<lparr>objs := f\<rparr>) = agent_next m"
  by (simp add: agent_next_def fun_eq_iff agent_step_objs_upd)

lemma schedule_step_Inr_iff:
  "schedule_step ks m = Inr m' \<longleftrightarrow> all_ok m (set ks) \<and> m' = m\<lparr>objs := activated m (set ks)\<rparr>"
proof (induction ks arbitrary: m)
  case Nil
  have "activated m {} = objs m" by (simp add: activated_def)
  then show ?case by (auto simp: all_ok_def)
next
  case (Cons k ks)
  show ?case
  proof (cases "objs m k")
    case None
    have "activated m (insert k (set ks)) = activated m (set ks)"
      using None by (auto simp: activated_def fun_eq_iff)
    moreover have "all_ok m (insert k (set ks)) = all_ok m (set ks)"
      using None by (auto simp: all_ok_def)
    ultimately show ?thesis using None Cons.IH[of m] by simp
  next
    case (Some a)
    show ?thesis
    proof (cases "FarmerAgent_step m a")
      case (Inl e)
      then have "\<not> all_ok m (insert k (set ks))"
        using Some by (auto simp: all_ok_def)
      then show ?thesis using Some Inl by simp
    next
      case (Inr a')
      define m1 where "m1 = m\<lparr>objs := (objs m)(k \<mapsto> a')\<rparr>"
      have idem: "FarmerAgent_step m a' = Inr a'"
        using Inr by (rule agent_step_idem)
      have ok: "all_ok m1 (set ks) = all_ok m (insert k (set ks))"
        using Some Inr idem unfolding all_ok_def m1_def by (auto simp: agent_step_objs_upd)
      have act: "activated m1 (set ks) = activated m (insert k (set ks))"
        using Some Inr idem unfolding activated_def m1_def
        by (auto simp: agent_next_objs_upd fun_eq_iff agent_next_def)
      have "m1\<lparr>objs := activated m1 (set ks)\<rparr> = m\<lparr>objs := activated m1 (set ks)\<rparr>"
        by (simp add: m1_def)
      then show ?thesis
        using Some Inr Cons.IH[of m1] ok act by (simp add: m1_def)
    qed
  qed
qed

lemma FarmerModel_step_flag:
  assumes "FarmerModel_step ks m = Inr m'" and "k \<in> set ks" and "objs m k = Some a"
  shows "\<exists>x y wt d. pos a = Some (x, y) \<and>
           np_reshape (depth_to_water_table m) (grid_width m, grid_height m) = Inr wt \<and>
           np_getitem2 wt x y = Inr d \<and>
           objs m' k = Some (a\<lparr>pumping := d < well_depth a\<rparr>)"
proof -
  from assms(1) obtain wt where
    wt: "np_reshape (depth_to_water_table m) (grid_width m, grid_height m) = Inr wt"
    and pass: "schedule_step ks (m\<lparr>wt_depth_2d := Some wt\<rparr>) = Inr m'"
    by (auto simp: FarmerModel_step_def split: sum.splits)
  let ?m1 = "m\<lparr>wt_depth_2d := Some wt\<rparr>"
  from pass have ok: "all_ok ?m1 (set ks)" and m': "m' = ?m1\<lparr>objs := activated ?m1 (set ks)\<rparr>"
    by (simp_all add: schedule_step_Inr_iff)
  from ok assms(2,3) obtain a' where a': "FarmerAgent_step ?m1 a = Inr a'"
    by (auto simp: all_ok_def)
  then obtain x y d where p: "pos a = Some (x, y)" and d: "np_getitem2 wt x y = Inr d"
    and eq: "a' = a\<lparr>pumping := \<not> (d \<ge> well_depth a)\<rparr>"
    by (auto dest!: agent_step_Inr)
  have "objs m' k = Some a'"
    using m' assms(2,3) a' by (simp add: activated_def agent_next_def)
  with p wt d eq show ?thesis by (auto simp: not_le)
qed

section \<open>The aggregation leaves the model alone\<close>

lemma count_pumping_model: "count_pumping cs x y f = Inr f' \<Longrightarrow> f_model f' = f_model f"
proof (induction cs arbitrary: f)
  case Nil
  then show ?case by simp
next
  case (Cons c cs)
  show ?case
  proof (cases "objs (f_model f) c")
    case None
    with Cons.prems show ?thesis by simp
  next
    case (Some a)
    show ?thesis
    proof (cases "pumping a")
      case False
      with Some Cons.prems have "count_pumping cs x y f = Inr f'" by simp
      then show ?thesis by (rule Cons.IH)
    next
      case True
      with Some Cons.prems obtain pw where
        "count_pumping cs x y (f\<lparr>f_pumping_well_count := pw\<rparr>) = Inr f'"
        by (simp split: sum.splits)
      then have "f_model f' = f_model (f\<lparr>f_pumping_well_count := pw\<rparr>)" by (rule Cons.IH)
      then show ?thesis by simp
    qed
  qed
qed

lemma count_cells_model: "count_cells cs f = Inr f' \<Longrightarrow> f_model f' = f_model f"
proof (induction cs arbitrary: f)
  case Nil
  then show ?case by simp
next
  case (Cons c cs)
  obtain content x y where c: "c = (content, x, y)" by (cases c) auto
  from Cons.prems c obtain wc f1 where
    f1: "count_pumping content x y (f\<lparr>f_well_count := wc\<rparr>) = Inr f1"
    and rest: "count_cells cs f1 = Inr f'"
    by (simp split: sum.splits)
  have "f_model f' = f_model f1" using rest by (rule Cons.IH)
  also have "\<dots> = f_model (f\<lparr>f_well_count := wc\<rparr>)" using f1 by (rule count_pumping_model)
  finally show ?case by simp
qed

lemma mark_grass_model: "mark_grass cs x y f = Inr f' \<Longrightarrow> g_model f' = g_model f"
proof (induction cs arbitrary: f)
  case Nil
  then show ?case by simp
next
  case (Cons c cs)
  show ?case
  proof (cases "ws_objs (g_model f) c")
    case None
    with Cons.prems show ?thesis by simp
  next
    case (Some a)
    show ?thesis
    proof (cases "wsg_kind a = GrassPatch")
      case False
      with Some Cons.prems have "mark_grass cs x y f = Inr f'" by simp
      then show ?thesis by (rule Cons.IH)
    next
      case True
      with Some Cons.prems obtain gmap where
        "mark_grass cs x y (f\<lparr>g_grass_map := gmap\<rparr>) = Inr f'"
        by (simp split: sum.splits)
      then have "g_model f' = g_model (f\<lparr>g_grass_map := gmap\<rparr>)" by (rule Cons.IH)
      then show ?thesis by simp
    qed
  qed
qed

lemma mark_cells_model: "mark_cells cs f = Inr f' \<Longrightarrow> g_model f' = g_model f"
proof (induction cs arbitrary: f)
  case Nil
  then show ?case by simp
next
  case (Cons c cs)
  obtain content x y where c: "c = (content, x, y)" by (cases c) auto
  from Cons.prems c obtain f1 where
    f1: "mark_grass content x y f = Inr f1" and rest: "mark_cells cs f1 = Inr f'"
    by (simp split: sum.splits)
  have "g_model f' = g_model f1" using rest by (rule Cons.IH)
  also have "\<dots> = g_model f" using f1 by (rule mark_grass_model)
  finally show ?case .
qed

lemma get_well_count_frame: "get_well_count rows cols m = Inr (m', r) \<Longrightarrow> m' = m"
  unfolding get_well_count_def
  by (auto split: sum.splits dest!: count_cells_model)

lemma generate_grass_map_frame: "generate_grass_map m = Inr (m', r) \<Longrightarrow> m' = m"
  unfolding generate_grass_map_def
  by (auto split: sum.splits dest!: mark_cells_model)

lemma count_pumping_agree:
  "frames_agree f1 f2 \<Longrightarrow>
   rel_sum (=) frames_agree (count_pumping cs x y f1) (count_pumping cs x y f2)"
proof (induction cs arbitrary: f1 f2)
  case Nil
  then show ?case by simp
next
  case (Cons c cs)
  from Cons.prems have eq: "map_option pumping (objs (f_model f1) c) =
      map_option pumping (objs (f_model f2) c)"
    and pw: "f_pumping_well_count f1 = f_pumping_well_count f2"
    by (simp_all add: frames_agree_def same_flags_def)
  show ?case
  proof (cases "objs (f_model f1) c")
    case None
    with eq have "objs (f_model f2) c = None" by simp
    with None show ?thesis by simp
  next
    case (Some a1)
    with eq obtain a2 where a2: "objs (f_model f2) c = Some a2" "pumping a2 = pumping a1"
      by (cases "objs (f_model f2) c") auto
    show ?thesis
    proof (cases "pumping a1")
      case False
      with Some a2 Cons.IH[OF Cons.prems] show ?thesis by simp
    next
      case True
      show ?thesis
      proof (cases "np_get (f_pumping_well_count f2) x y")
        case (Inl e)
        with True Some a2 pw show ?thesis by simp
      next
        case (Inr v)
        show ?thesis
        proof (cases "np_set (f_pumping_well_count f2) x y (v + 1)")
          case (Inl e)
          with Inr True Some a2 pw show ?thesis by simp
        next
          case new: (Inr new)
          have "frames_agree (f1\<lparr>f_pumping_well_count := new\<rparr>) (f2\<lparr>f_pumping_well_count := new\<rparr>)"
            using Cons.prems by (simp add: frames_agree_def)
          then have "rel_sum (=) frames_agree
              (count_pumping cs x y (f1\<lparr>f_pumping_well_count := new\<rparr>))
              (count_pumping cs x y (f2\<lparr>f_pumping_well_count := new\<rparr>))"
            by (rule Cons.IH)
          with new Inr True Some a2 pw show ?thesis by simp
        qed
      qed
    qed
  qed
qed

lemma count_cells_agree:
  "frames_agree f1 f2 \<Longrightarrow> rel_sum (=) frames_agree (count_cells cs f1) (count_cells cs f2)"
proof (induction cs arbitrary: f1 f2)
  case Nil
  then show ?case by simp
next
  case (Cons c cs)
  obtain content x y where c: "c = (content, x, y)" by (cases c) auto
  from Cons.prems have wc: "f_well_count f1 = f_well_count f2"
    by (simp add: frames_agree_def)
  show ?case
  proof (cases "np_set (f_well_count f2) x y (int (length content))")
    case (Inl e)
    with c wc show ?thesis by simp
  next
    case (Inr new)
    have "frames_agree (f1\<lparr>f_well_count := new\<rparr>) (f2\<lparr>f_well_count := new\<rparr>)"
      using Cons.prems by (simp add: frames_agree_def)
    then have inner: "rel_sum (=) frames_agree
        (count_pumping content x y (f1\<lparr>f_well_count := new\<rparr>))
        (count_pumping content x y (f2\<lparr>f_well_count := new\<rparr>))"
      by (rule count_pumping_agree)
    show ?thesis
    proof (cases "count_pumping content x y (f1\<lparr>f_well_count := new\<rparr>)")
      case l: (Inl e)
      with inner have "count_pumping content x y (f2\<lparr>f_well_count := new\<rparr>) = Inl e"
        by (cases "count_pumping content x y (f2\<lparr>f_well_count := new\<rparr>)") auto
      with l c wc Inr show ?thesis by simp
    next
      case r: (Inr g1)
      with inner obtain g2 where
        g2: "count_pumping content x y (f2\<lparr>f_well_count := new\<rparr>) = Inr g2"
        and ag: "frames_agree g1 g2"
        by (cases "count_pumping content x y (f2\<lparr>f_well_count := new\<rparr>)") auto
      from ag have "rel_sum (=) frames_agree (count_cells cs g1) (count_cells cs g2)"
        by (rule Cons.IH)
      with r g2 c wc Inr show ?thesis by simp
    qed
  qed
qed

lemma get_well_count_same_flags:
  assumes "same_flags m1 m2"
  shows "map_sum id snd (get_well_count rows cols m1) = map_sum id snd (get_well_count rows cols m2)"
proof -
  let ?f1 = "\<lparr>f_model = m1, f_well_count = np_zeros rows cols, f_pumping_well_count = np_zeros rows cols\<rparr>"
  let ?f2 = "\<lparr>f_model = m2, f_well_count = np_zeros rows cols, f_pumping_well_count = np_zeros rows cols\<rparr>"
  have it: "coord_iter m1 = coord_iter m2"
    using assms by (simp add: coord_iter_def same_flags_def)
  have "frames_agree ?f1 ?f2" using assms by (simp add: frames_agree_def)
  then have "rel_sum (=) frames_agree (count_cells (coord_iter m2) ?f1) (count_cells (coord_iter m2) ?f2)"
    by (rule count_cells_agree)
  then show ?thesis
    unfolding get_well_count_def it
    by (cases "count_cells (coord_iter m2) ?f1"; cases "count_cells (coord_iter m2) ?f2")
       (auto simp: frames_agree_def)
qed

lemma mark_grass_agree:
  "maps_agree f1 f2 \<Longrightarrow> rel_sum (=) maps_agree (mark_grass cs x y f1) (mark_grass cs x y f2)"
proof (induction cs arbitrary: f1 f2)
  case Nil
  then show ?case by simp
next
  case (Cons c cs)
  from Cons.prems have eq: "map_option (\<lambda>a. (wsg_kind a, fully_grown a)) (ws_objs (g_model f1) c) =
      map_option (\<lambda>a. (wsg_kind a, fully_grown a)) (ws_objs (g_model f2) c)"
    and gmap: "g_grass_map f1 = g_grass_map f2"
    by (simp_all add: maps_agree_def same_grass_def)
  show ?case
  proof (cases "ws_objs (g_model f1) c")
    case None
    with eq have "ws_objs (g_model f2) c = None" by simp
    with None show ?thesis by simp
  next
    case (Some a1)
    with eq obtain a2 where a2: "ws_objs (g_model f2) c = Some a2"
      "wsg_kind a2 = wsg_kind a1" "fully_grown a2 = fully_grown a1"
      by (cases "ws_objs (g_model f2) c") auto
    show ?thesis
    proof (cases "wsg_kind a1 = GrassPatch")
      case False
      with Some a2 Cons.IH[OF Cons.prems] show ?thesis by simp
    next
      case True
      show ?thesis
      proof (cases "np_set (g_grass_map f2) x y (if fully_grown a1 then 2 else 1)")
        case (Inl e)
        with True Some a2 gmap show ?thesis by simp
      next
        case new: (Inr new)
        have "maps_agree (f1\<lparr>g_grass_map := new\<rparr>) (f2\<lparr>g_grass_map := new\<rparr>)"
          using Cons.prems by (simp add: maps_agree_def)
        then have "rel_sum (=) maps_agree
            (mark_grass cs x y (f1\<lparr>g_grass_map := new\<rparr>))
            (mark_grass cs x y (f2\<lparr>g_grass_map := new\<rparr>))"
          by (rule Cons.IH)
        with new True Some a2 gmap show ?thesis by simp
      qed
    qed
  qed
qed

lemma mark_cells_agree:
  "maps_agree f1 f2 \<Longrightarrow> rel_sum (=) maps_agree (mark_cells cs f1) (mark_cells cs f2)"
proof (induction cs arbitrary: f1 f2)
  case Nil
  then show ?case by simp
next
  case (Cons c cs)
  obtain content x y where c: "c = (content, x, y)" by (cases c) auto
  have inner: "rel_sum (=) maps_agree (mark_grass content x y f1) (mark_grass content x y f2)"
    using Cons.prems by (rule mark_grass_agree)
  show ?case
  proof (cases "mark_grass content x y f1")
    case l: (Inl e)
    with inner have "mark_grass content x y f2 = Inl e"
      by (cases "mark_grass content x y f2") auto
    with l c show ?thesis by simp
  next
    case r: (Inr g1)
    with inner obtain g2 where g2: "mark_grass content x y f2 = Inr g2"
      and ag: "maps_agree g1 g2"
      by (cases "mark_grass content x y f2") auto
    from ag have "rel_sum (=) maps_agree (mark_cells cs g1) (mark_cells cs g2)"
      by (rule Cons.IH)
    with r g2 c show ?thesis by simp
  qed
qed

lemma generate_grass_map_same_grass:
  assumes "same_grass m1 m2"
  shows "map_sum id snd (generate_grass_map m1) = map_sum id snd (generate_grass_map m2)"
proof -
  let ?z = "np_zeros (ws_grid_width m2) (ws_grid_height m2)"
  let ?f1 = "\<lparr>g_model = m1, g_grass_map = ?z\<rparr>"
  let ?f2 = "\<lparr>g_model = m2, g_grass_map = ?z\<rparr>"
  have it: "ws_coord_iter m1 = ws_coord_iter m2"
    and dims: "ws_grid_width m1 = ws_grid_width m2" "ws_grid_height m1 = ws_grid_height m2"
    using assms by (simp_all add: ws_coord_iter_def same_grass_def)
  have "maps_agree ?f1 ?f2" using assms by (simp add: maps_agree_def)
  then have "rel_sum (=) maps_agree (mark_cells (ws_coord_iter m2) ?f1) (mark_cells (ws_coord_iter m2) ?f2)"
    by (rule mark_cells_agree)
  then show ?thesis
    unfolding generate_grass_map_def it dims
    by (cases "mark_cells (ws_coord_iter m2) ?f1"; cases "mark_cells (ws_coord_iter m2) ?f2")
       (auto simp: maps_agree_def)
qed

section \<open>Placement\<close>

lemma randrange_Inr:
  assumes "randrange r n = Inr v"
  shows "0 < n \<and> int v < n"
proof -
  from assms have n: "0 < n" and v: "v = r mod nat n"
    by (auto simp: randrange_def split: if_splits)
  from n have "r mod nat n < nat n" by simp
  with n v show ?thesis by linarith
qed

lemma create_agents_Cons:
  assumes "create_agents rng wd (i # rest) m = Inr m'"
  obtains x y where "1 \<le> x" "x \<le> grid_width m - 2" "1 \<le> y" "y \<le> grid_width m - 2"
    "x < grid_width m" "y < grid_height m"
    "create_agents rng wd rest
       (m\<lparr>schedule := schedule m @ [i],
          objs := (objs m)(i \<mapsto> (FarmerAgent_init i wd)\<lparr>pos := Some (x, y)\<rparr>),
          grid_cells := (grid_cells m)
            ((x, y) := (if i \<in> set (grid_cells m (x, y)) then grid_cells m (x, y)
                        else grid_cells m (x, y) @ [i]))\<rparr>) = Inr m'"
proof -
  from assms obtain rx where rx: "randrange (rng (2 * i)) (int (grid_width m) - 2) = Inr rx"
    by (auto simp: Let_def split: sum.splits)
  from assms rx obtain ry where
    ry: "randrange (rng (2 * i + 1)) (int (grid_width m) - 2) = Inr ry"
    by (auto simp: Let_def split: sum.splits)
  let ?m1 = "m\<lparr>schedule := schedule m @ [i], objs := (objs m)(i \<mapsto> FarmerAgent_init i wd)\<rparr>"
  from assms rx ry obtain m2 where
    m2: "place_agent i (rx + 1, ry + 1) ?m1 = Inr m2"
    and rest: "create_agents rng wd rest m2 = Inr m'"
    by (auto simp: Let_def split: sum.splits)
  from m2 have inside: "rx + 1 < grid_width m" "ry + 1 < grid_height m"
    by (auto simp: place_agent_def split: if_splits)
  from m2 have m2_eq: "m2 = m\<lparr>schedule := schedule m @ [i],
          objs := (objs m)(i \<mapsto> (FarmerAgent_init i wd)\<lparr>pos := Some (rx + 1, ry + 1)\<rparr>),
          grid_cells := (grid_cells m)
            ((rx + 1, ry + 1) := (if i \<in> set (grid_cells m (rx + 1, ry + 1))
                        then grid_cells m (rx + 1, ry + 1)
                        else grid_cells m (rx + 1, ry + 1) @ [i]))\<rparr>"
    by (auto simp: place_agent_def split: if_splits)
  from randrange_Inr[OF rx] have "rx + 1 \<le> grid_width m - 2" by linarith
  moreover from randrange_Inr[OF ry] have "ry + 1 \<le> grid_width m - 2" by linarith
  ultimately show thesis
    using inside rest m2_eq that[of "rx + 1" "ry + 1"] by simp
qed

lemma create_agents_placed:
  assumes "create_agents rng wd ids m = Inr m'" and "distinct ids"
    and "\<forall>c. set (grid_cells m c) \<inter> set ids = {}"
  shows "grid_width m' = grid_width m \<and> grid_height m' = grid_height m \<and>
         (\<forall>i\<in>set ids. placed (grid_width m) m' i) \<and>
         (\<forall>i. i \<notin> set ids \<longrightarrow> placed (grid_width m) m i \<longrightarrow> placed (grid_width m) m' i)"
  using assms
proof (induction ids arbitrary: m)
  case Nil
  then show ?case by simp
next
  case (Cons i rest)
  from Cons.prems(1) obtain x y where
    x: "1 \<le> x" "x \<le> grid_width m - 2" and y: "1 \<le> y" "y \<le> grid_width m - 2"
    and rest: "create_agents rng wd rest
       (m\<lparr>schedule := schedule m @ [i],
          objs := (objs m)(i \<mapsto> (FarmerAgent_init i wd)\<lparr>pos := Some (x, y)\<rparr>),
          grid_cells := (grid_cells m)
            ((x, y) := (if i \<in> set (grid_cells m (x, y)) then grid_cells m (x, y)
                        else grid_cells m (x, y) @ [i]))\<rparr>) = Inr m'"
    by (rule create_agents_Cons)
  define m2 where "m2 = m\<lparr>schedule := schedule m @ [i],
          objs := (objs m)(i \<mapsto> (FarmerAgent_init i wd)\<lparr>pos := Some (x, y)\<rparr>),
          grid_cells := (grid_cells m)
            ((x, y) := (if i \<in> set (grid_cells m (x, y)) then grid_cells m (x, y)
                        else grid_cells m (x, y) @ [i]))\<rparr>"
  have fresh: "i \<notin> set (grid_cells m c)" for c
  proof
    assume "i \<in> set (grid_cells m c)"
    then have "i \<in> set (grid_cells m c) \<inter> set (i # rest)" by simp
    with Cons.prems(3) show False by blast
  qed
  have cells2: "grid_cells m2 = (grid_cells m)((x, y) := grid_cells m (x, y) @ [i])"
    using fresh by (simp add: m2_def)
  have w2: "grid_width m2 = grid_width m" "grid_height m2 = grid_height m"
    by (simp_all add: m2_def)
  have here: "placed (grid_width m) m2 i"
    unfolding placed_def using x y fresh
    by (auto simp: cells2 m2_def intro!: exI[of _ x] exI[of _ y])
  have keep: "placed (grid_width m) m2 j" if "j \<noteq> i" "placed (grid_width m) m j" for j
    using that unfolding placed_def by (auto simp: cells2 m2_def)
  have "\<forall>c. set (grid_cells m2 c) \<inter> set rest = {}"
    using Cons.prems(2,3) by (auto simp: cells2)
  with rest Cons.prems(2) have IH: "grid_width m' = grid_width m2 \<and> grid_height m' = grid_height m2 \<and>
         (\<forall>i\<in>set rest. placed (grid_width m2) m' i) \<and>
         (\<forall>i. i \<notin> set rest \<longrightarrow> placed (grid_width m2) m2 i \<longrightarrow> placed (grid_width m2) m' i)"
    by (intro Cons.IH) (simp_all add: m2_def)
  from Cons.prems(2) have "i \<notin> set rest" by simp
  with IH here keep show ?case by (auto simp: w2)
qed

lemma FarmerModel_init_placed:
  assumes "FarmerModel_init rng N w h wd arr = Inr m" and "i < N"
  shows "placed w m i"
proof -
  let ?m0 = "\<lparr>num_agents = N, grid_width = w, grid_height = h, grid_cells = (\<lambda>_. []),
        depth_to_water_table = arr, wt_depth_2d = None, schedule = [], objs = Map.empty\<rparr>"
  from assms(1) have "create_agents rng wd [0..<N] ?m0 = Inr m"
    by (simp add: FarmerModel_init_def)
  then have "\<forall>i\<in>set [0..<N]. placed (grid_width ?m0) m i"
    by (intro create_agents_placed[THEN conjunct2, THEN conjunct2, THEN conjunct1]) simp_all
  with assms(2) show ?thesis by simp
qed

lemma agent_next_pos: "pos (agent_next m a) = pos a"
proof (cases "FarmerAgent_step m a")
  case (Inl e)
  then show ?thesis by (simp add: agent_next_def)
next
  case (Inr a')
  from agent_step_Inr[OF Inr] have "pos a' = pos a" by auto
  with Inr show ?thesis by (simp add: agent_next_def)
qed

lemma FarmerModel_step_keeps_places:
  assumes "FarmerModel_step ks m = Inr m'"
  shows "grid_cells m' = grid_cells m \<and>
         (\<forall>i. map_option pos (objs m' i) = map_option pos (objs m i))"
proof -
  from assms obtain wt where
    pass: "schedule_step ks (m\<lparr>wt_depth_2d := Some wt\<rparr>) = Inr m'"
    by (auto simp: FarmerModel_step_def split: sum.splits)
  let ?m1 = "m\<lparr>wt_depth_2d := Some wt\<rparr>"
  from pass have m': "m' = ?m1\<lparr>objs := activated ?m1 (set ks)\<rparr>"
    by (simp add: schedule_step_Inr_iff)
  have "map_option pos (activated ?m1 (set ks) i) = map_option pos (objs m i)" for i
    by (cases "objs m i") (simp_all add: activated_def agent_next_pos)
  with m' show ?thesis by simp
qed

section \<open>Arrays of float values\<close>

lemma map_Fin_eq: "map Fin a = map Fin b \<longleftrightarrow> a = b"
  by (rule inj_map_eq_map) (simp add: inj_def)

lemma finite_array_Inr_iff: "finite_array xs = Inr ys \<longleftrightarrow> xs = map Fin ys"
proof (induction xs arbitrary: ys)
  case Nil
  then show ?case by auto
next
  case (Cons v xs)
  show ?case
  proof (cases v)
    case (Fin x)
    show ?thesis
    proof (cases "finite_array xs")
      case (Inl e)
      have "xs \<noteq> map Fin zs" for zs using Cons.IH[of zs] Inl by simp
      with Fin Inl show ?thesis by (cases ys) auto
    next
      case (Inr zs)
      have "xs = map Fin zs" using Cons.IH[of zs] Inr by simp
      with Fin Inr show ?thesis by (cases ys) (auto simp: map_Fin_eq)
    qed
  qed (cases ys; simp)+
qed

lemma finite_array_map_Fin: "finite_array (map Fin ys) = Inr ys"
  by (simp add: finite_array_Inr_iff)

lemma finite_array_length: "finite_array xs = Inr ys \<Longrightarrow> length ys = length xs"
  by (auto simp: finite_array_Inr_iff)

lemma finite_array_error: "finite_array xs = Inl e \<Longrightarrow> e = NonFinite"
proof (induction xs)
  case Nil
  then show ?case by simp
next
  case (Cons v xs)
  then show ?case by (cases v) (auto split: sum.splits)
qed


lemma np_assign_length: "np_assign target src = Inr r \<Longrightarrow> length r = length target"
  by (auto simp: np_assign_def dest!: finite_array_length split: if_splits)

lemma np_inplace_length: "np_inplace f target src = Inr r \<Longrightarrow> length r = length target"
  by (auto simp: np_inplace_def dest!: finite_array_length split: if_splits)

section \<open>The solver calls of one year\<close>

lemma run_steps_solver:
  "run_steps L d k w =
     (case solver_steps L d (recharge w) k (gdp w) of
        Inl x \<Rightarrow> Inl (fst x, w\<lparr>gdp := snd x\<rparr>)
      | Inr g \<Rightarrow> Inr (w\<lparr>gdp := g\<rparr>))"
proof (induction k arbitrary: w)
  case 0
  then show ?case by simp
next
  case (Suc k)
  show ?case
  proof (cases "run_one_step L d (recharge w) (gdp w)")
    case (Inl x)
    then show ?thesis by (cases x) simp
  next
    case (Inr g)
    with Suc[of "w\<lparr>gdp := g\<rparr>"] show ?thesis by (simp split: sum.splits)
  qed
qed

lemma solver_steps_Suc:
  "solver_steps L d r (Suc k) g =
     (case solver_steps L d r k g of Inl x \<Rightarrow> Inl x | Inr g' \<Rightarrow> run_one_step L d r g')"
proof (induction k arbitrary: g)
  case 0
  then show ?case by (simp split: sum.splits)
next
  case (Suc k)
  show ?case
  proof (cases "run_one_step L d r g")
    case (Inl x)
    then show ?thesis by simp
  next
    case (Inr g1)
    with Suc[of g1] show ?thesis by simp
  qed
qed


section \<open>The statements of the loop body, one by one\<close>

lemma run_for_one_year_Inr_iff:
  "run_for_one_year F L d w = Inr w1 \<longleftrightarrow>
     (\<exists>n g1. num_iter F d = Inr n \<and>
        solver_steps L d (recharge w) (nat n) (gdp w) = Inr g1 \<and> w1 = w\<lparr>gdp := g1\<rparr>)"
  by (cases "num_iter F d")
    (auto simp: run_for_one_year_def run_steps_solver split: sum.splits)


lemma update_depth_Inr_iff:
  "update_depth F L w = Inr w2 \<longleftrightarrow>
     (\<exists>diff buf. np_sub F (elev_of L (gdp w)) (wt_of L (gdp w)) = Inr diff \<and>
        np_assign (data (depth_to_water_table (farmer_model w))) diff = Inr buf \<and>
        w2 = w\<lparr>farmer_model := (farmer_model w)
                 \<lparr>depth_to_water_table :=
                    (depth_to_water_table (farmer_model w))\<lparr>data := buf\<rparr>\<rparr>\<rparr>)"
  by (auto simp: update_depth_def split: sum.splits)


lemma step_farmers_Inr_iff:
  "step_farmers ks w = Inr w3 \<longleftrightarrow>
     (\<exists>fm. FarmerModel_step ks (farmer_model w) = Inr fm \<and> w3 = w\<lparr>farmer_model := fm\<rparr>)"
  by (auto simp: step_farmers_def split: sum.splits)


lemma count_wells_Inr_iff:
  "count_wells P w = Inr w4 \<longleftrightarrow>
     (\<exists>fm wc pwc mx. get_well_count (nr P) (nc P) (farmer_model w) = Inr (fm, wc, pwc) \<and>
        np_amax (data (depth_to_water_table fm)) = Inr mx \<and>
        w4 = w\<lparr>farmer_model := fm, well_count := wc, pumping_well_count := pwc\<rparr>)"
  by (auto simp: count_wells_def split: sum.splits)


lemma update_recharge_Inr_iff:
  "update_recharge F P w = Inr w5 \<longleftrightarrow>
     (\<exists>vals r. recharge_values F P (flatten (pumping_well_count w)) = Inr vals \<and>
        np_assign (recharge w) vals = Inr r \<and> w5 = w\<lparr>recharge := r\<rparr>)"
  by (auto simp: update_recharge_def split: sum.splits)


lemma plot_water_table_Inr_iff:
  "plot_water_table L w = Inr w6 \<longleftrightarrow>
     (\<exists>g. imshow_grid L (gdp w) (wt_of L (gdp w)) = Inr g \<and> w6 = w\<lparr>gdp := g\<rparr>)"
  by (auto simp: plot_water_table_def split: sum.splits)


lemma recharge_values_error:
  "recharge_values F P counts = Inl e \<longleftrightarrow>
     e = ZeroDivisionError \<and> fl_mul F (Fin (dx P)) (Fin (dx P)) = Fin 0"
  by (auto simp: recharge_values_def recharge_factor_def split: sum.splits)

section \<open>What a step of the farmer model raises, and what it leaves\<close>


lemma schedule_left_Inr: "schedule_step ks m = Inr m' \<Longrightarrow> schedule_left ks m = m'"
proof (induction ks arbitrary: m)
  case Nil
  then show ?case by simp
next
  case (Cons k ks)
  show ?case
  proof (cases "objs m k")
    case None
    with Cons show ?thesis by simp
  next
    case (Some a)
    with Cons.prems obtain a' where a': "FarmerAgent_step m a = Inr a'"
      by (cases "FarmerAgent_step m a") simp_all
    with Some Cons.prems Cons.IH[of "m\<lparr>objs := (objs m)(k \<mapsto> a')\<rparr>"] show ?thesis by simp
  qed
qed




lemma FarmerModel_left_Inr: "FarmerModel_step ks m = Inr m' \<Longrightarrow> FarmerModel_left ks m = m'"
  by (auto simp: FarmerModel_step_def FarmerModel_left_def schedule_left_Inr split: sum.splits)



section \<open>An iteration that returns\<close>

lemma coupling_step_chain:
  "coupling_step F L P ks w = Inr w' \<longleftrightarrow>
     (\<exists>w1 w2 w3 w4 w5. run_for_one_year F L (dt P) w = Inr w1 \<and> update_depth F L w1 = Inr w2 \<and>
        step_farmers ks w2 = Inr w3 \<and> count_wells P w3 = Inr w4 \<and>
        update_recharge F P w4 = Inr w5 \<and> plot_water_table L w5 = Inr w')"
  by (simp add: coupling_step_def split: sum.splits)

lemma coupling_step_Inr_iff:
  "coupling_step F L P ks w = Inr w' \<longleftrightarrow>
     (\<exists>n g1 diff buf fm0 view fm wc pwc mx vals r g2.
        num_iter F (dt P) = Inr n \<and>
        solver_steps L (dt P) (recharge w) (nat n) (gdp w) = Inr g1 \<and>
        np_sub F (elev_of L g1) (wt_of L g1) = Inr diff \<and>
        np_assign (data (depth_to_water_table (farmer_model w))) diff = Inr buf \<and>
        fm0 = (farmer_model w)
          \<lparr>depth_to_water_table := (depth_to_water_table (farmer_model w))\<lparr>data := buf\<rparr>\<rparr> \<and>
        np_reshape (depth_to_water_table fm0) (grid_width fm0, grid_height fm0) = Inr view \<and>
        schedule_step ks (fm0\<lparr>wt_depth_2d := Some view\<rparr>) = Inr fm \<and>
        get_well_count (nr P) (nc P) fm = Inr (fm, wc, pwc) \<and>
        np_amax (data (depth_to_water_table fm)) = Inr mx \<and>
        recharge_values F P (flatten pwc) = Inr vals \<and>
        np_assign (recharge w) vals = Inr r \<and>
        imshow_grid L g1 (wt_of L g1) = Inr g2 \<and>
        w' = \<lparr>gdp = g2, recharge = r, farmer_model = fm, well_count = wc,
              pumping_well_count = pwc\<rparr>)"
  (is "?lhs \<longleftrightarrow> ?rhs")
proof
  assume ?lhs
  then obtain w1 w2 w3 w4 w5 where
    s1: "run_for_one_year F L (dt P) w = Inr w1" and s2: "update_depth F L w1 = Inr w2" and
    s3: "step_farmers ks w2 = Inr w3" and s4: "count_wells P w3 = Inr w4" and
    s5: "update_recharge F P w4 = Inr w5" and s6: "plot_water_table L w5 = Inr w'"
    unfolding coupling_step_chain by blast
  from s1 obtain n g1 where n: "num_iter F (dt P) = Inr n"
    and g1: "solver_steps L (dt P) (recharge w) (nat n) (gdp w) = Inr g1"
    and w1: "w1 = w\<lparr>gdp := g1\<rparr>"
    unfolding run_for_one_year_Inr_iff by blast
  from s2 w1 obtain diff buf where diff: "np_sub F (elev_of L g1) (wt_of L g1) = Inr diff"
    and buf: "np_assign (data (depth_to_water_table (farmer_model w))) diff = Inr buf"
    and w2: "w2 = w1\<lparr>farmer_model := (farmer_model w)
                 \<lparr>depth_to_water_table :=
                    (depth_to_water_table (farmer_model w))\<lparr>data := buf\<rparr>\<rparr>\<rparr>"
    unfolding update_depth_Inr_iff by auto
  define fm0 where "fm0 = (farmer_model w)
          \<lparr>depth_to_water_table := (depth_to_water_table (farmer_model w))\<lparr>data := buf\<rparr>\<rparr>"
  from s3 w2 obtain fm where fm: "FarmerModel_step ks fm0 = Inr fm"
    and w3: "w3 = w2\<lparr>farmer_model := fm\<rparr>"
    unfolding step_farmers_Inr_iff fm0_def by auto
  from fm obtain view where
    view: "np_reshape (depth_to_water_table fm0) (grid_width fm0, grid_height fm0) = Inr view"
    and sched: "schedule_step ks (fm0\<lparr>wt_depth_2d := Some view\<rparr>) = Inr fm"
    by (auto simp: FarmerModel_step_def split: sum.splits)
  from s4 w3 obtain fm' wc pwc mx where
    gw: "get_well_count (nr P) (nc P) fm = Inr (fm', wc, pwc)"
    and mx: "np_amax (data (depth_to_water_table fm')) = Inr mx"
    and w4: "w4 = w3\<lparr>farmer_model := fm', well_count := wc, pumping_well_count := pwc\<rparr>"
    unfolding count_wells_Inr_iff by auto
  from gw have same: "fm' = fm" by (rule get_well_count_frame)
  from s5 w4 obtain vals r where vals: "recharge_values F P (flatten pwc) = Inr vals"
    and r: "np_assign (recharge w4) vals = Inr r" and w5: "w5 = w4\<lparr>recharge := r\<rparr>"
    unfolding update_recharge_Inr_iff by auto
  from r w4 w3 w2 w1 have r': "np_assign (recharge w) vals = Inr r" by simp
  from s6 w5 w4 w3 w2 w1 obtain g2 where g2: "imshow_grid L g1 (wt_of L g1) = Inr g2"
    and w': "w' = w5\<lparr>gdp := g2\<rparr>"
    unfolding plot_water_table_Inr_iff by auto
  have "w' = \<lparr>gdp = g2, recharge = r, farmer_model = fm, well_count = wc,
              pumping_well_count = pwc\<rparr>"
    unfolding w' w5 w4 w3 w2 w1 same by (cases w) simp
  with n g1 diff buf fm0_def view sched gw mx vals r' g2 same show ?rhs by blast
next
  assume ?rhs
  then obtain n g1 diff buf fm0 view fm wc pwc mx vals r g2 where
    n: "num_iter F (dt P) = Inr n" and
    g1: "solver_steps L (dt P) (recharge w) (nat n) (gdp w) = Inr g1" and
    diff: "np_sub F (elev_of L g1) (wt_of L g1) = Inr diff" and
    buf: "np_assign (data (depth_to_water_table (farmer_model w))) diff = Inr buf" and
    fm0: "fm0 = (farmer_model w)
          \<lparr>depth_to_water_table := (depth_to_water_table (farmer_model w))\<lparr>data := buf\<rparr>\<rparr>" and
    view: "np_reshape (depth_to_water_table fm0) (grid_width fm0, grid_height fm0) = Inr view" and
    sched: "schedule_step ks (fm0\<lparr>wt_depth_2d := Some view\<rparr>) = Inr fm" and
    gw: "get_well_count (nr P) (nc P) fm = Inr (fm, wc, pwc)" and
    mx: "np_amax (data (depth_to_water_table fm)) = Inr mx" and
    vals: "recharge_values F P (flatten pwc) = Inr vals" and
    r: "np_assign (recharge w) vals = Inr r" and
    g2: "imshow_grid L g1 (wt_of L g1) = Inr g2" and
    w': "w' = \<lparr>gdp = g2, recharge = r, farmer_model = fm, well_count = wc,
              pumping_well_count = pwc\<rparr>"
    by blast
  let ?w1 = "w\<lparr>gdp := g1\<rparr>"
  let ?w2 = "?w1\<lparr>farmer_model := fm0\<rparr>"
  let ?w3 = "?w2\<lparr>farmer_model := fm\<rparr>"
  let ?w4 = "?w3\<lparr>farmer_model := fm, well_count := wc, pumping_well_count := pwc\<rparr>"
  let ?w5 = "?w4\<lparr>recharge := r\<rparr>"
  let ?w6 = "?w5\<lparr>gdp := g2\<rparr>"
  have s1: "run_for_one_year F L (dt P) w = Inr ?w1"
    using n g1 unfolding run_for_one_year_Inr_iff by blast
  have s2: "update_depth F L ?w1 = Inr ?w2"
    using diff buf fm0 unfolding update_depth_Inr_iff by simp
  have "FarmerModel_step ks fm0 = Inr fm"
    using view sched by (simp add: FarmerModel_step_def)
  then have s3: "step_farmers ks ?w2 = Inr ?w3"
    unfolding step_farmers_Inr_iff by simp
  have s4: "count_wells P ?w3 = Inr ?w4"
    using gw mx unfolding count_wells_Inr_iff by simp
  have s5: "update_recharge F P ?w4 = Inr ?w5"
    using vals r unfolding update_recharge_Inr_iff by simp
  have s6: "plot_water_table L ?w5 = Inr ?w6"
    using g2 unfolding plot_water_table_Inr_iff by simp
  have "?w6 = w'" unfolding w' by (cases w) simp
  with s1 s2 s3 s4 s5 s6 show ?lhs unfolding coupling_step_chain by metis
qed









section \<open>An iteration that raises, and the loop over the years\<close>





section \<open>Counting solver steps and figures\<close>




section \<open>When the coupling loop cannot raise\<close>










































text \<open>The constructor leaves a model the loop can work on.\<close>

lemma create_agents_ready:
  assumes "create_agents rng wd ids m = Inr m'"
    and "\<forall>k a. objs m k = Some a \<longrightarrow>
           (\<exists>x y. pos a = Some (x, y) \<and> x < grid_width m \<and> y < grid_height m)"
    and "\<forall>c. set (grid_cells m c) \<subseteq> dom (objs m)"
  shows "grid_width m' = grid_width m \<and> grid_height m' = grid_height m \<and>
         depth_to_water_table m' = depth_to_water_table m \<and>
         (\<forall>k a. objs m' k = Some a \<longrightarrow>
            (\<exists>x y. pos a = Some (x, y) \<and> x < grid_width m \<and> y < grid_height m)) \<and>
         (\<forall>c. set (grid_cells m' c) \<subseteq> dom (objs m'))"
  using assms
proof (induction ids arbitrary: m)
  case Nil
  then show ?case by simp
next
  case (Cons i rest)
  from Cons.prems(1) obtain x y where xy: "x < grid_width m" "y < grid_height m"
    and rest: "create_agents rng wd rest
       (m\<lparr>schedule := schedule m @ [i],
          objs := (objs m)(i \<mapsto> (FarmerAgent_init i wd)\<lparr>pos := Some (x, y)\<rparr>),
          grid_cells := (grid_cells m)
            ((x, y) := (if i \<in> set (grid_cells m (x, y)) then grid_cells m (x, y)
                        else grid_cells m (x, y) @ [i]))\<rparr>) = Inr m'"
    by (rule create_agents_Cons)
  define m2 where "m2 = m\<lparr>schedule := schedule m @ [i],
          objs := (objs m)(i \<mapsto> (FarmerAgent_init i wd)\<lparr>pos := Some (x, y)\<rparr>),
          grid_cells := (grid_cells m)
            ((x, y) := (if i \<in> set (grid_cells m (x, y)) then grid_cells m (x, y)
                        else grid_cells m (x, y) @ [i]))\<rparr>"
  have dims: "grid_width m2 = grid_width m" "grid_height m2 = grid_height m"
    "depth_to_water_table m2 = depth_to_water_table m"
    by (simp_all add: m2_def)
  have a: "\<forall>k a. objs m2 k = Some a \<longrightarrow>
           (\<exists>x y. pos a = Some (x, y) \<and> x < grid_width m2 \<and> y < grid_height m2)"
    using Cons.prems(2) xy by (auto simp: m2_def)
  have b: "\<forall>c. set (grid_cells m2 c) \<subseteq> dom (objs m2)"
    using Cons.prems(3) by (auto simp: m2_def)
  from rest have "create_agents rng wd rest m2 = Inr m'" by (simp add: m2_def)
  from Cons.IH[OF this a b] show ?case by (simp add: dims)
qed

lemma FarmerModel_init_ready:
  assumes "FarmerModel_init rng N w h wd arr = Inr m" and "np_size arr = w * h"
  shows "fm_ready m \<and> grid_width m = w \<and> grid_height m = h"
proof -
  let ?m0 = "\<lparr>num_agents = N, grid_width = w, grid_height = h, grid_cells = (\<lambda>_. []),
        depth_to_water_table = arr, wt_depth_2d = None, schedule = [], objs = Map.empty\<rparr>"
  from assms(1) have "create_agents rng wd [0..<N] ?m0 = Inr m"
    by (simp add: FarmerModel_init_def)
  from create_agents_ready[OF this] assms(2) show ?thesis
    by (simp add: fm_ready_def)
qed

section \<open>Cell counts\<close>

lemma np_reshape_Inr:
  "np_reshape a (w, h) = Inr a' \<Longrightarrow> shape a' = [w, h] \<and> np_size a' = w * h \<and> data a' = data a"
  by (auto simp: np_reshape_def np_size_def split: if_splits)

lemma np_reshape_ValueError_iff:
  "np_reshape a (w, h) = Inl e \<longleftrightarrow> e = ValueError \<and> np_size a \<noteq> w * h"
  by (auto simp: np_reshape_def)

lemma np_getitem2_error: "np_getitem2 a x y = Inl e \<Longrightarrow> e = IndexError"
  by (auto simp: np_getitem2_def split: list.splits if_splits)

lemma agent_step_error: "FarmerAgent_step m a = Inl e \<Longrightarrow> e \<noteq> ValueError"
  by (auto simp: FarmerAgent_step_def split: option.splits sum.splits if_splits prod.splits
      dest: np_getitem2_error)

lemma schedule_step_error: "schedule_step ks m = Inl e \<Longrightarrow> e \<noteq> ValueError"
proof (induction ks arbitrary: m)
  case Nil
  then show ?case by simp
next
  case (Cons k ks)
  show ?case
  proof (cases "objs m k")
    case None
    with Cons show ?thesis by simp
  next
    case (Some a)
    show ?thesis
    proof (cases "FarmerAgent_step m a")
      case (Inl e')
      with Some Cons.prems have "e' = e" by simp
      with Inl show ?thesis by (auto dest: agent_step_error)
    next
      case (Inr a')
      with Some Cons.prems
      have "schedule_step ks (m\<lparr>objs := (objs m)(k \<mapsto> a')\<rparr>) = Inl e" by simp
      then show ?thesis by (rule Cons.IH)
    qed
  qed
qed

lemma FarmerModel_step_ValueError_iff:
  "FarmerModel_step ks m = Inl ValueError \<longleftrightarrow>
     np_size (depth_to_water_table m) \<noteq> grid_width m * grid_height m"
proof (cases "np_reshape (depth_to_water_table m) (grid_width m, grid_height m)")
  case (Inl e)
  then have "e = ValueError"
    and "np_size (depth_to_water_table m) \<noteq> grid_width m * grid_height m"
    by (simp_all add: np_reshape_ValueError_iff)
  with Inl show ?thesis by (simp add: FarmerModel_step_def)
next
  case (Inr a)
  then have "np_size (depth_to_water_table m) = grid_width m * grid_height m"
    by (auto simp: np_reshape_def split: if_splits)
  moreover have "FarmerModel_step ks m \<noteq> Inl ValueError"
    using Inr schedule_step_error[of ks "m\<lparr>wt_depth_2d := Some a\<rparr>" ValueError]
    by (auto simp: FarmerModel_step_def)
  ultimately show ?thesis by simp
qed

lemma FarmerModel_step_field:
  assumes "FarmerModel_step ks m = Inr m'"
  shows "\<exists>a'. wt_depth_2d m' = Some a' \<and> shape a' = [grid_width m, grid_height m] \<and>
           np_size a' = grid_width m * grid_height m \<and>
           data a' = data (depth_to_water_table m)"
    and "depth_to_water_table m' = depth_to_water_table m"
    and "grid_width m' = grid_width m" and "grid_height m' = grid_height m"
proof -
  from assms obtain wt where
    wt: "np_reshape (depth_to_water_table m) (grid_width m, grid_height m) = Inr wt"
    and pass: "schedule_step ks (m\<lparr>wt_depth_2d := Some wt\<rparr>) = Inr m'"
    by (auto simp: FarmerModel_step_def split: sum.splits)
  from pass have m': "m' = m\<lparr>wt_depth_2d := Some wt,
      objs := activated (m\<lparr>wt_depth_2d := Some wt\<rparr>) (set ks)\<rparr>"
    by (simp add: schedule_step_Inr_iff)
  from m' np_reshape_Inr[OF wt]
  show "\<exists>a'. wt_depth_2d m' = Some a' \<and> shape a' = [grid_width m, grid_height m] \<and>
           np_size a' = grid_width m * grid_height m \<and>
           data a' = data (depth_to_water_table m)" by simp
  from m' show "depth_to_water_table m' = depth_to_water_table m"
    "grid_width m' = grid_width m" "grid_height m' = grid_height m" by simp_all
qed

lemma coupling_step_dims:
  assumes "coupling_step F L P ks w = Inr w'"
  shows "same_dims (farmer_model w) (farmer_model w')"
proof -
  from assms obtain buf diff fm0 view fm where
    buf: "np_assign (data (depth_to_water_table (farmer_model w))) diff = Inr buf" and
    fm0: "fm0 = (farmer_model w)
          \<lparr>depth_to_water_table := (depth_to_water_table (farmer_model w))\<lparr>data := buf\<rparr>\<rparr>" and
    view: "np_reshape (depth_to_water_table fm0) (grid_width fm0, grid_height fm0) = Inr view" and
    sched: "schedule_step ks (fm0\<lparr>wt_depth_2d := Some view\<rparr>) = Inr fm" and
    w': "farmer_model w' = fm"
    unfolding coupling_step_Inr_iff by auto
  from view sched have "FarmerModel_step ks fm0 = Inr fm" by (simp add: FarmerModel_step_def)
  from FarmerModel_step_field(2-4)[OF this] have "same_dims fm0 fm" by (simp add: same_dims_def)
  moreover from np_assign_length[OF buf] fm0 have "same_dims (farmer_model w) fm0"
    by (simp add: same_dims_def np_size_def)
  ultimately show ?thesis using w' by (simp add: same_dims_def)
qed

lemma coupling_years_dims:
  "coupling_years F L P order_of years w = Inr w' \<Longrightarrow>
   same_dims (farmer_model w) (farmer_model w')"
proof (induction years arbitrary: w)
  case Nil
  then show ?case by (simp add: same_dims_def)
next
  case (Cons i years)
  from Cons.prems obtain w1 where s: "coupling_step F L P (order_of i) w = Inr w1"
    and r: "coupling_years F L P order_of years w1 = Inr w'"
    by (auto split: sum.splits)
  from coupling_step_dims[OF s] Cons.IH[OF r] show ?case by (simp add: same_dims_def)
qed

lemma stunt_grass_error: "stunt_grass cs m = Inl e \<Longrightarrow> e \<noteq> ValueError"
  by (induction cs m rule: stunt_grass.induct) (auto split: option.splits if_splits)

lemma limit_cells_error: "limit_cells cells a d m = Inl e \<Longrightarrow> e \<noteq> ValueError"
proof (induction cells arbitrary: m)
  case Nil
  then show ?case by simp
next
  case (Cons cell cells)
  obtain content x y where cell: "cell = (content, x, y)" by (cases cell) auto
  show ?case
  proof (cases "np_getitem2 a x y")
    case (Inl e')
    with cell Cons.prems have "e' = e" by simp
    with Inl show ?thesis by (auto dest: np_getitem2_error)
  next
    case (Inr s)
    show ?thesis
    proof (cases "s < d")
      case False
      with Inr cell Cons.prems have "limit_cells cells a d m = Inl e" by simp
      then show ?thesis by (rule Cons.IH)
    next
      case True
      show ?thesis
      proof (cases "stunt_grass content m")
        case (Inl e')
        with True Inr cell Cons.prems have "e' = e" by simp
        with Inl show ?thesis by (auto dest: stunt_grass_error)
      next
        case r: (Inr m1)
        with True Inr cell Cons.prems have "limit_cells cells a d m1 = Inl e" by simp
        then show ?thesis by (rule Cons.IH)
      qed
    qed
  qed
qed

lemma limit_grass_by_soil_ValueError_iff:
  "limit_grass_by_soil g soil_field d = Inl ValueError \<longleftrightarrow>
     np_size soil_field \<noteq> ws_width g * ws_height g"
proof (cases "np_reshape soil_field (ws_width g, ws_height g)")
  case (Inl e)
  then have "e = ValueError" and "np_size soil_field \<noteq> ws_width g * ws_height g"
    by (simp_all add: np_reshape_ValueError_iff)
  with Inl show ?thesis by (simp add: limit_grass_by_soil_def)
next
  case (Inr a)
  then have "np_size soil_field = ws_width g * ws_height g"
    by (auto simp: np_reshape_def split: if_splits)
  moreover have "limit_grass_by_soil g soil_field d \<noteq> Inl ValueError"
    using Inr limit_cells_error[of "ws_coord_iter g" a d g ValueError]
    by (auto simp: limit_grass_by_soil_def)
  ultimately show ?thesis by simp
qed
section \<open>The scenarios, evaluated\<close>

lemma replicate9: "replicate 9 d = [d,d,d,d,d,d,d,d,d]"
  by (simp add: numeral_eq_Suc)

lemma scenario_init:
  "FarmerModel_init rng 1 3 3 5 \<lparr>shape = [3, 3], data = replicate 9 d\<rparr> = Inr (scenario d)"
  by (simp add: FarmerModel_init_def FarmerAgent_init_def randrange_def place_agent_def
      scenario_def)

lemma scenario_getitem:
  "np_getitem2 \<lparr>shape = [3, 3], data = replicate 9 d\<rparr> 1 1 = Inr d"
  by (simp add: np_getitem2_def replicate9)

lemma scenario_step:
  "FarmerModel_step [0] (scenario d) =
     Inr ((scenario d)\<lparr>wt_depth_2d := Some \<lparr>shape = [3, 3], data = replicate 9 d\<rparr>,
        objs := [0 \<mapsto> \<lparr>unique_id = 0, pos = Some (1, 1), pumping = \<not> (5 \<le> d), well_depth = 5\<rparr>]\<rparr>)"
  by (simp add: FarmerModel_step_def np_reshape_def np_size_def scenario_def
      FarmerAgent_step_def scenario_getitem[simplified])

lemma well_count_scenario:
  "map_sum id snd (get_well_count 3 3 (scenario d)) =
     Inr ([[0, 0, 0], [0, 1, 0], [0, 0, 0]], [[0, 0, 0], [0, 1, 0], [0, 0, 0]])"
  by (simp add: get_well_count_def coord_iter_def scenario_def np_zeros_def np_set_def
      np_get_def upt_rec numeral_eq_Suc)

lemma grass_map_pasture:
  "map_sum id snd (generate_grass_map pasture) = Inr [[2, 1], [2, 2]]"
  by (simp add: generate_grass_map_def ws_coord_iter_def pasture_def np_zeros_def np_set_def
      upt_rec numeral_eq_Suc)

lemma two_farmers_init:
  "FarmerModel_init (\<lambda>i. i div 2) 2 4 4 5
     \<lparr>shape = [4, 4], data = [0, 0, 0, 0, 0, 6, 0, 0, 0, 0, 4, 0, 0, 0, 0, 0]\<rparr> = Inr two_farmers"
  by (simp add: FarmerModel_init_def FarmerAgent_init_def randrange_def place_agent_def
      two_farmers_def upt_rec fun_upd_twist) (simp add: numeral_2_eq_2)

lemma two_farmers_step:
  "FarmerModel_step [0, 1] two_farmers = Inr two_farmers_stepped"
  by (simp add: FarmerModel_step_def np_reshape_def np_size_def two_farmers_def
      two_farmers_stepped_def FarmerAgent_step_def np_getitem2_def fun_upd_twist)


lemma non_square_perimeter:
  "FarmerModel_init (\<lambda>_. 1) 1 5 3 wd arr =
     Inr \<lparr>num_agents = 1, grid_width = 5, grid_height = 3,
          grid_cells = (\<lambda>_. [])((2, 2) := [0]),
          depth_to_water_table = arr, wt_depth_2d = None, schedule = [0],
          objs = [0 \<mapsto> \<lparr>unique_id = 0, pos = Some (2, 2), pumping = True, well_depth = wd\<rparr>]\<rparr>"
  by (simp add: FarmerModel_init_def FarmerAgent_init_def randrange_def place_agent_def)
     (simp add: numeral_2_eq_2)

lemma non_square_outside:
  "FarmerModel_init (\<lambda>_. 2) 1 5 3 wd arr = Inl IndexError"
  by (simp add: FarmerModel_init_def FarmerAgent_init_def randrange_def place_agent_def)



























section \<open>The claims\<close>

text \<open>
  Claim C1. Whenever a step of the farmer model returns, every activated agent ends the
  step with the flag its observation dictates: the model's field, reshaped to the agent
  grid, is read at the agent's position; a depth at or beyond the well depth leaves
  \<open>pumping\<close> false, a smaller depth leaves it true. Nothing else of the agent changes,
  and the flag it had before plays no part.
\<close>

theorem C1_pumping_flag_follows_observation:
  assumes "FarmerModel_step ks m = Inr m'" and "k \<in> set ks" and "objs m k = Some a"
  shows "\<exists>x y wt d a'.
           pos a = Some (x, y) \<and>
           np_reshape (depth_to_water_table m) (grid_width m, grid_height m) = Inr wt \<and>
           np_getitem2 wt x y = Inr d \<and>
           objs m' k = Some a' \<and> a' = a\<lparr>pumping := pumping a'\<rparr> \<and>
           (d \<ge> well_depth a \<longrightarrow> \<not> pumping a') \<and>
           (d < well_depth a \<longrightarrow> pumping a')"
proof -
  from FarmerModel_step_flag[OF assms] obtain x y wt d where
    obs: "pos a = Some (x, y)"
      "np_reshape (depth_to_water_table m) (grid_width m, grid_height m) = Inr wt"
      "np_getitem2 wt x y = Inr d"
    and new: "objs m' k = Some (a\<lparr>pumping := d < well_depth a\<rparr>)"
    by blast
  let ?a' = "a\<lparr>pumping := d < well_depth a\<rparr>"
  have "?a' = a\<lparr>pumping := pumping ?a'\<rparr>" by simp
  moreover have "d \<ge> well_depth a \<longrightarrow> \<not> pumping ?a'" by simp
  moreover have "d < well_depth a \<longrightarrow> pumping ?a'" by simp
  ultimately show ?thesis using obs new by blast
qed

theorem C1_witness:
  "FarmerModel_step [0] (scenario 6) =
     Inr ((scenario 6)\<lparr>wt_depth_2d := Some \<lparr>shape = [3, 3], data = replicate 9 6\<rparr>,
        objs := [0 \<mapsto> \<lparr>unique_id = 0, pos = Some (1, 1), pumping = False, well_depth = 5\<rparr>]\<rparr>) \<and>
   (0::nat) \<in> set [0] \<and>
   objs (scenario 6) 0 = Some \<lparr>unique_id = 0, pos = Some (1, 1), pumping = True, well_depth = 5\<rparr> \<and>
   (\<exists>x y wt d a'.
      pos \<lparr>unique_id = 0, pos = Some (1, 1), pumping = True, well_depth = 5\<rparr> = Some (x, y) \<and>
      np_reshape (depth_to_water_table (scenario 6)) (grid_width (scenario 6), grid_height (scenario 6)) = Inr wt \<and>
      np_getitem2 wt x y = Inr d \<and>
      objs ((scenario 6)\<lparr>wt_depth_2d := Some \<lparr>shape = [3, 3], data = replicate 9 6\<rparr>,
        objs := [0 \<mapsto> \<lparr>unique_id = 0, pos = Some (1, 1), pumping = False, well_depth = 5\<rparr>]\<rparr>) 0 = Some a' \<and>
      a' = \<lparr>unique_id = 0, pos = Some (1, 1), pumping = True, well_depth = 5\<rparr>\<lparr>pumping := pumping a'\<rparr> \<and>
      (d \<ge> well_depth \<lparr>unique_id = 0, pos = Some (1, 1), pumping = True, well_depth = 5\<rparr> \<longrightarrow> \<not> pumping a') \<and>
      (d < well_depth \<lparr>unique_id = 0, pos = Some (1, 1), pumping = True, well_depth = 5\<rparr> \<longrightarrow> pumping a'))"
proof -
  have s: "FarmerModel_step [0] (scenario 6) =
     Inr ((scenario 6)\<lparr>wt_depth_2d := Some \<lparr>shape = [3, 3], data = replicate 9 6\<rparr>,
        objs := [0 \<mapsto> \<lparr>unique_id = 0, pos = Some (1, 1), pumping = False, well_depth = 5\<rparr>]\<rparr>)"
    using scenario_step[of 6] by simp
  have k: "(0::nat) \<in> set [0]" by simp
  have a: "objs (scenario 6) 0 = Some \<lparr>unique_id = 0, pos = Some (1, 1), pumping = True, well_depth = 5\<rparr>"
    by (simp add: scenario_def)
  from C1_pumping_flag_follows_observation[OF s k a] s k a show ?thesis by blast
qed

text \<open>
  Claim C2. The literal scenario: a 3 by 3 agent grid, one agent, well depth 5.0. The
  constructor can only place the agent at (1, 1), whatever the generator draws. With a
  depth of 6.0 at every cell, one step leaves the agent's \<open>pumping\<close> false; with 4.0 it
  leaves it true.
\<close>

theorem C2_literal_scenario:
  "FarmerModel_init rng 1 3 3 5 \<lparr>shape = [3, 3], data = replicate 9 d\<rparr> = Inr (scenario d) \<and>
   grid_cells (scenario d) (1, 1) = [0] \<and>
   map_option pos (objs (scenario d) 0) = Some (Some (1, 1)) \<and>
   map_option well_depth (objs (scenario d) 0) = Some 5 \<and>
   (\<exists>m'. FarmerModel_step (schedule (scenario 6)) (scenario 6) = Inr m' \<and>
         map_option pumping (objs m' 0) = Some False) \<and>
   (\<exists>m'. FarmerModel_step (schedule (scenario 4)) (scenario 4) = Inr m' \<and>
         map_option pumping (objs m' 0) = Some True)"
proof -
  have sched: "schedule (scenario x) = [0]" for x by (simp add: scenario_def)
  have dry: "\<exists>m'. FarmerModel_step [0] (scenario 6) = Inr m' \<and>
      map_option pumping (objs m' 0) = Some False"
    by (simp add: scenario_step)
  have wet: "\<exists>m'. FarmerModel_step [0] (scenario 4) = Inr m' \<and>
      map_option pumping (objs m' 0) = Some True"
    by (simp add: scenario_step)
  have "grid_cells (scenario d) (1, 1) = [0]"
    and "map_option pos (objs (scenario d) 0) = Some (Some (1, 1))"
    and "map_option well_depth (objs (scenario d) 0) = Some 5"
    by (simp_all add: scenario_def)
  with dry wet scenario_init[of rng d] show ?thesis unfolding sched by blast
qed

text \<open>
  Claim C3. The field handed to the agents has the cell count of the agent grid: a step
  of the farmer model that returns has set \<open>wt_depth_2d\<close> to a view of the model's
  buffer of shape \<open>(width, height)\<close>, hence of \<open>width * height\<close> cells. When the field
  has \<open>rows * cols\<close> values and the agent grid is \<open>cols\<close> wide and \<open>rows\<close> high, the
  reshape returns and the step raises no ValueError. The loop keeps the field's length
  and the grid's dimensions, so this holds in every year. The same holds for the
  soil field that \<open>limit_grass_by_soil\<close> reshapes.
\<close>

theorem C3_field_has_the_grid_cell_count:
  "(FarmerModel_step ks m = Inr m' \<longrightarrow>
      (\<exists>a'. wt_depth_2d m' = Some a' \<and> shape a' = [grid_width m, grid_height m] \<and>
         np_size a' = grid_width m * grid_height m \<and>
         data a' = data (depth_to_water_table m))) \<and>
   (np_size (depth_to_water_table m) = rows * cols \<and> grid_width m = cols \<and>
    grid_height m = rows \<longrightarrow>
      (\<exists>a'. np_reshape (depth_to_water_table m) (grid_width m, grid_height m) = Inr a') \<and>
      FarmerModel_step ks m \<noteq> Inl ValueError) \<and>
   (coupling_years F L P order_of years w = Inr w' \<longrightarrow>
      np_size (depth_to_water_table (farmer_model w')) =
        np_size (depth_to_water_table (farmer_model w)) \<and>
      grid_width (farmer_model w') = grid_width (farmer_model w) \<and>
      grid_height (farmer_model w') = grid_height (farmer_model w)) \<and>
   (limit_grass_by_soil g soil_field d = Inr g' \<longrightarrow>
      np_size soil_field = ws_width g * ws_height g) \<and>
   (np_size soil_field = ws_width g * ws_height g \<longrightarrow>
      limit_grass_by_soil g soil_field d \<noteq> Inl ValueError)"
proof -
  have a: "\<exists>a'. wt_depth_2d m' = Some a' \<and> shape a' = [grid_width m, grid_height m] \<and>
         np_size a' = grid_width m * grid_height m \<and>
         data a' = data (depth_to_water_table m)"
    if "FarmerModel_step ks m = Inr m'"
    using that by (rule FarmerModel_step_field(1))
  have b: "(\<exists>a'. np_reshape (depth_to_water_table m) (grid_width m, grid_height m) = Inr a') \<and>
      FarmerModel_step ks m \<noteq> Inl ValueError"
    if "np_size (depth_to_water_table m) = rows * cols \<and> grid_width m = cols \<and>
      grid_height m = rows"
  proof -
    from that have eq: "np_size (depth_to_water_table m) = grid_width m * grid_height m"
      by (simp add: mult.commute)
    then have "\<exists>a'. np_reshape (depth_to_water_table m) (grid_width m, grid_height m) = Inr a'"
      by (simp add: np_reshape_def)
    moreover from eq have "FarmerModel_step ks m \<noteq> Inl ValueError"
      by (simp add: FarmerModel_step_ValueError_iff)
    ultimately show ?thesis by blast
  qed
  have c: "np_size (depth_to_water_table (farmer_model w')) =
        np_size (depth_to_water_table (farmer_model w)) \<and>
      grid_width (farmer_model w') = grid_width (farmer_model w) \<and>
      grid_height (farmer_model w') = grid_height (farmer_model w)"
    if "coupling_years F L P order_of years w = Inr w'"
    using coupling_years_dims[OF that] by (simp add: same_dims_def)
  have d1: "np_size soil_field = ws_width g * ws_height g"
    if "limit_grass_by_soil g soil_field d = Inr g'"
    using that limit_grass_by_soil_ValueError_iff[of g soil_field d]
    by (auto simp: limit_grass_by_soil_def np_reshape_def split: sum.splits if_splits)
  have d2: "limit_grass_by_soil g soil_field d \<noteq> Inl ValueError"
    if "np_size soil_field = ws_width g * ws_height g"
    using that by (simp add: limit_grass_by_soil_ValueError_iff)
  from a b c d1 d2 show ?thesis by blast
qed

theorem C3_witness:
  "FarmerModel_step [0] (scenario 6) =
     Inr ((scenario 6)\<lparr>wt_depth_2d := Some \<lparr>shape = [3, 3], data = replicate 9 6\<rparr>,
        objs := [0 \<mapsto> \<lparr>unique_id = 0, pos = Some (1, 1), pumping = False, well_depth = 5\<rparr>]\<rparr>) \<and>
   (\<exists>a'. wt_depth_2d ((scenario 6)\<lparr>wt_depth_2d := Some \<lparr>shape = [3, 3], data = replicate 9 6\<rparr>,
        objs := [0 \<mapsto> \<lparr>unique_id = 0, pos = Some (1, 1), pumping = False, well_depth = 5\<rparr>]\<rparr>)
        = Some a' \<and>
      shape a' = [grid_width (scenario 6), grid_height (scenario 6)] \<and>
      np_size a' = grid_width (scenario 6) * grid_height (scenario 6) \<and>
      data a' = data (depth_to_water_table (scenario 6))) \<and>
   np_size (depth_to_water_table (scenario 6)) = 3 * 3 \<and>
   FarmerModel_step [0] (scenario 6) \<noteq> Inl ValueError \<and>
   np_size \<lparr>shape = [4], data = [0, 0, 0, 0]\<rparr> = ws_width pasture * ws_height pasture \<and>
   limit_grass_by_soil pasture \<lparr>shape = [4], data = [0, 0, 0, 0]\<rparr> 1 \<noteq> Inl ValueError"
proof -
  note t = C3_field_has_the_grid_cell_count[of "[0]" "scenario 6"
      "(scenario 6)\<lparr>wt_depth_2d := Some \<lparr>shape = [3, 3], data = replicate 9 6\<rparr>,
        objs := [0 \<mapsto> \<lparr>unique_id = 0, pos = Some (1, 1), pumping = False, well_depth = 5\<rparr>]\<rparr>"
      3 3 _ _ _ _ _ _ _ pasture "\<lparr>shape = [4], data = [0, 0, 0, 0]\<rparr>" 1]
  have s: "FarmerModel_step [0] (scenario 6) =
     Inr ((scenario 6)\<lparr>wt_depth_2d := Some \<lparr>shape = [3, 3], data = replicate 9 6\<rparr>,
        objs := [0 \<mapsto> \<lparr>unique_id = 0, pos = Some (1, 1), pumping = False, well_depth = 5\<rparr>]\<rparr>)"
    using scenario_step[of 6] by simp
  have sz: "np_size (depth_to_water_table (scenario 6)) = 3 * 3"
    "grid_width (scenario 6) = 3" "grid_height (scenario 6) = 3"
    by (simp_all add: scenario_def np_size_def)
  have ps: "np_size \<lparr>shape = [4], data = [0, 0, 0, 0]\<rparr> = ws_width pasture * ws_height pasture"
    by (simp add: np_size_def pasture_def)
  from t s sz ps show ?thesis by blast
qed




text \<open>
  Claim C5. Aggregation is idempotent: a second call of \<open>get_well_count\<close> (or of
  \<open>generate_grass_map\<close>) on the model the first call left behind returns the same
  arrays; and the arrays depend only on the grid's cells and the flags of the agents,
  so two models that agree on these give the same aggregate.
\<close>

theorem C5_aggregation_idempotent:
  "(get_well_count rows cols m = Inr (m', r) \<longrightarrow> get_well_count rows cols m' = Inr (m', r)) \<and>
   (same_flags m m2 \<longrightarrow>
      map_sum id snd (get_well_count rows cols m2) = map_sum id snd (get_well_count rows cols m)) \<and>
   (generate_grass_map g = Inr (g', gmap) \<longrightarrow> generate_grass_map g' = Inr (g', gmap)) \<and>
   (same_grass g g2 \<longrightarrow>
      map_sum id snd (generate_grass_map g2) = map_sum id snd (generate_grass_map g))"
proof -
  have "get_well_count rows cols m' = Inr (m', r)" if "get_well_count rows cols m = Inr (m', r)"
    using that get_well_count_frame[OF that] by simp
  moreover have "generate_grass_map g' = Inr (g', gmap)" if "generate_grass_map g = Inr (g', gmap)"
    using that generate_grass_map_frame[OF that] by simp
  ultimately show ?thesis
    using get_well_count_same_flags[of m m2 rows cols] generate_grass_map_same_grass[of g g2]
    by auto
qed

theorem C5_witness:
  "(\<exists>m'. get_well_count 3 3 (scenario 6) =
           Inr (m', [[0, 0, 0], [0, 1, 0], [0, 0, 0]], [[0, 0, 0], [0, 1, 0], [0, 0, 0]]) \<and>
         get_well_count 3 3 m' =
           Inr (m', [[0, 0, 0], [0, 1, 0], [0, 0, 0]], [[0, 0, 0], [0, 1, 0], [0, 0, 0]])) \<and>
   same_flags (scenario 6) (scenario 4) \<and>
   map_sum id snd (get_well_count 3 3 (scenario 4)) =
     map_sum id snd (get_well_count 3 3 (scenario 6)) \<and>
   (\<exists>g'. generate_grass_map pasture = Inr (g', [[2, 1], [2, 2]]) \<and>
         generate_grass_map g' = Inr (g', [[2, 1], [2, 2]])) \<and>
   same_grass pasture (pasture\<lparr>ws_width := 7\<rparr>) \<and>
   map_sum id snd (generate_grass_map (pasture\<lparr>ws_width := 7\<rparr>)) =
     map_sum id snd (generate_grass_map pasture)"
proof -
  from well_count_scenario[of 6] obtain m' where
    w: "get_well_count 3 3 (scenario 6) =
      Inr (m', [[0, 0, 0], [0, 1, 0], [0, 0, 0]], [[0, 0, 0], [0, 1, 0], [0, 0, 0]])"
    by (cases "get_well_count 3 3 (scenario 6)") auto
  from grass_map_pasture obtain g' where
    g: "generate_grass_map pasture = Inr (g', [[2, 1], [2, 2]])"
    by (cases "generate_grass_map pasture") auto
  have sf: "same_flags (scenario 6) (scenario 4)"
    by (simp add: same_flags_def scenario_def)
  have sg: "same_grass pasture (pasture\<lparr>ws_width := 7\<rparr>)"
    by (simp add: same_grass_def)
  from C5_aggregation_idempotent[of 3 3 "scenario 6" m' _ "scenario 4" pasture g' _
      "pasture\<lparr>ws_width := 7\<rparr>"] w g sf sg
  show ?thesis by blast
qed

text \<open>
  Claim C6. Aggregation reads the agents and never writes them: when \<open>get_well_count\<close>
  or \<open>generate_grass_map\<close> returns, the model it was handed, and with it every agent's
  identity, position and flags, is what it was before the call.
\<close>

theorem C6_aggregation_reads_only:
  "(get_well_count rows cols m = Inr (m', wc, pwc) \<longrightarrow> m' = m) \<and>
   (generate_grass_map g = Inr (g', gmap) \<longrightarrow> g' = g)"
  using get_well_count_frame[of rows cols m m' "(wc, pwc)"] generate_grass_map_frame[of g g' gmap]
  by blast

theorem C6_witness:
  "get_well_count 3 3 (scenario 6) =
     Inr (scenario 6, [[0, 0, 0], [0, 1, 0], [0, 0, 0]], [[0, 0, 0], [0, 1, 0], [0, 0, 0]]) \<and>
   generate_grass_map pasture = Inr (pasture, [[2, 1], [2, 2]])"
proof -
  from well_count_scenario[of 6] obtain m' where
    w: "get_well_count 3 3 (scenario 6) =
      Inr (m', [[0, 0, 0], [0, 1, 0], [0, 0, 0]], [[0, 0, 0], [0, 1, 0], [0, 0, 0]])"
    by (cases "get_well_count 3 3 (scenario 6)") auto
  from grass_map_pasture obtain g' where
    g: "generate_grass_map pasture = Inr (g', [[2, 1], [2, 2]])"
    by (cases "generate_grass_map pasture") auto
  from C6_aggregation_reads_only[of 3 3 "scenario 6" m' _ _ pasture g' _] w g
  show ?thesis by simp
qed






text \<open>
  Claim C9. The result of \<open>FarmerModel.step\<close> does not depend on the activation order:
  for two orders that are permutations of each other, the step returns a model under
  one exactly when it returns the same model under the other (so it also raises under
  one exactly when it raises under the other; a step that raises returns no model).
  The reason is in the second part: the flag an activated agent ends with is read off
  the shared field at the agent's own position and the agent's own well depth.
\<close>

theorem C9_activation_order_irrelevant:
  assumes "mset ks1 = mset ks2"
  shows "(FarmerModel_step ks1 m = Inr m' \<longleftrightarrow> FarmerModel_step ks2 m = Inr m') \<and>
         (FarmerModel_step ks1 m = Inr m' \<longrightarrow>
            (\<forall>k a. k \<in> set ks1 \<and> objs m k = Some a \<longrightarrow>
               (\<exists>x y wt d. pos a = Some (x, y) \<and>
                  np_reshape (depth_to_water_table m) (grid_width m, grid_height m) = Inr wt \<and>
                  np_getitem2 wt x y = Inr d \<and>
                  map_option pumping (objs m' k) = Some (d < well_depth a))))"
proof -
  from assms have "set ks1 = set ks2" by (rule mset_eq_setD)
  then have "schedule_step ks1 m1 = Inr m' \<longleftrightarrow> schedule_step ks2 m1 = Inr m'" for m1
    by (simp add: schedule_step_Inr_iff)
  then have same: "FarmerModel_step ks1 m = Inr m' \<longleftrightarrow> FarmerModel_step ks2 m = Inr m'"
    by (simp add: FarmerModel_step_def split: sum.splits)
  have own: "\<exists>x y wt d. pos a = Some (x, y) \<and>
      np_reshape (depth_to_water_table m) (grid_width m, grid_height m) = Inr wt \<and>
      np_getitem2 wt x y = Inr d \<and>
      map_option pumping (objs m' k) = Some (d < well_depth a)"
    if "FarmerModel_step ks1 m = Inr m'" "k \<in> set ks1" "objs m k = Some a" for k a
  proof -
    from FarmerModel_step_flag[OF that] obtain x y wt d where
      "pos a = Some (x, y)"
      "np_reshape (depth_to_water_table m) (grid_width m, grid_height m) = Inr wt"
      "np_getitem2 wt x y = Inr d"
      "objs m' k = Some (a\<lparr>pumping := d < well_depth a\<rparr>)"
      by blast
    then show ?thesis by simp
  qed
  from same own show ?thesis by blast
qed

theorem C9_witness:
  "mset [0, 1] = mset [1, 0 :: nat] \<and>
   FarmerModel_step [0, 1] two_farmers = Inr two_farmers_stepped \<and>
   FarmerModel_step [1, 0] two_farmers = Inr two_farmers_stepped"
proof -
  have p: "mset [0, 1] = mset [1, 0 :: nat]" by simp
  from C9_activation_order_irrelevant[OF p, of two_farmers two_farmers_stepped, THEN conjunct1]
    two_farmers_step p
  show ?thesis by simp
qed

text \<open>
  Claim C10. When \<open>FarmerModel.__init__\<close> returns, each of the \<open>N\<close> agents has a
  position \<open>(x, y)\<close> with \<open>1 \<le> x \<le> width - 2\<close> and \<open>1 \<le> y \<le> width - 2\<close> (both bounds
  from the width) and stands in the cell at that position once and in no other cell;
  a step of the model changes neither the cells nor any agent's position. On a
  square grid every agent is therefore off the perimeter. On a grid that is not
  square this fails for \<open>y\<close>: on a 5 by 3 grid the constructor can put an agent in row
  \<open>y = 2\<close>, the last row, or draw \<open>y = 3\<close> and raise IndexError.
\<close>

theorem C10_agents_placed_once_within_width_bounds:
  assumes "FarmerModel_init rng N w h wd arr = Inr m"
  shows "(\<forall>i<N. \<exists>a x y. objs m i = Some a \<and> pos a = Some (x, y) \<and>
            1 \<le> x \<and> x \<le> w - 2 \<and> 1 \<le> y \<and> y \<le> w - 2 \<and>
            (\<forall>c. count_list (grid_cells m c) i = (if c = (x, y) then 1 else 0))) \<and>
         (\<forall>ks m0 m1. FarmerModel_step ks m0 = Inr m1 \<longrightarrow>
            grid_cells m1 = grid_cells m0 \<and>
            (\<forall>i. map_option pos (objs m1 i) = map_option pos (objs m0 i))) \<and>
         (w = h \<longrightarrow>
            (\<forall>i<N. \<exists>a x y. objs m i = Some a \<and> pos a = Some (x, y) \<and>
               0 < x \<and> x < w - 1 \<and> 0 < y \<and> y < h - 1)) \<and>
         (\<exists>rng' m2 a. FarmerModel_init rng' 1 5 3 wd arr = Inr m2 \<and>
            objs m2 0 = Some a \<and> pos a = Some (2, 3 - 1)) \<and>
         (\<exists>rng'. FarmerModel_init rng' 1 5 3 wd arr = Inl IndexError)"
proof -
  have a: "\<forall>i<N. \<exists>a x y. objs m i = Some a \<and> pos a = Some (x, y) \<and>
            1 \<le> x \<and> x \<le> w - 2 \<and> 1 \<le> y \<and> y \<le> w - 2 \<and>
            (\<forall>c. count_list (grid_cells m c) i = (if c = (x, y) then 1 else 0))"
    using FarmerModel_init_placed[OF assms] unfolding placed_def by blast
  have b: "\<forall>ks m0 m1. FarmerModel_step ks m0 = Inr m1 \<longrightarrow>
            grid_cells m1 = grid_cells m0 \<and>
            (\<forall>i. map_option pos (objs m1 i) = map_option pos (objs m0 i))"
    using FarmerModel_step_keeps_places by blast
  have c: "\<forall>i<N. \<exists>a x y. objs m i = Some a \<and> pos a = Some (x, y) \<and>
               0 < x \<and> x < w - 1 \<and> 0 < y \<and> y < h - 1" if "w = h"
  proof (intro allI impI)
    fix i assume "i < N"
    with a obtain a0 x y where "objs m i = Some a0" "pos a0 = Some (x, y)"
      "1 \<le> x" "x \<le> w - 2" "1 \<le> y" "y \<le> w - 2" by blast
    moreover from this that have "0 < x \<and> x < w - 1 \<and> 0 < y \<and> y < h - 1" by auto
    ultimately show "\<exists>a x y. objs m i = Some a \<and> pos a = Some (x, y) \<and>
               0 < x \<and> x < w - 1 \<and> 0 < y \<and> y < h - 1" by blast
  qed
  have d: "\<exists>rng' m2 a. FarmerModel_init rng' 1 5 3 wd arr = Inr m2 \<and>
            objs m2 0 = Some a \<and> pos a = Some (2, 3 - 1)"
    using non_square_perimeter[of wd arr] by (intro exI[of _ "\<lambda>_. 1"]) auto
  have e: "\<exists>rng'. FarmerModel_init rng' 1 5 3 wd arr = Inl IndexError"
    using non_square_outside by blast
  from a b c d e show ?thesis by blast
qed

theorem C10_witness:
  "FarmerModel_init (\<lambda>i. i div 2) 2 4 4 5
     \<lparr>shape = [4, 4], data = [0, 0, 0, 0, 0, 6, 0, 0, 0, 0, 4, 0, 0, 0, 0, 0]\<rparr> = Inr two_farmers \<and>
   (\<exists>a x y. objs two_farmers 0 = Some a \<and> pos a = Some (x, y) \<and>
      1 \<le> x \<and> x \<le> 4 - 2 \<and> 1 \<le> y \<and> y \<le> 4 - 2 \<and>
      (\<forall>c. count_list (grid_cells two_farmers c) 0 = (if c = (x, y) then 1 else 0))) \<and>
   (\<exists>a x y. objs two_farmers 1 = Some a \<and> pos a = Some (x, y) \<and>
      0 < x \<and> x < 4 - 1 \<and> 0 < y \<and> y < 4 - 1) \<and>
   FarmerModel_step [0, 1] two_farmers = Inr two_farmers_stepped \<and>
   grid_cells two_farmers_stepped = grid_cells two_farmers \<and>
   (\<forall>i. map_option pos (objs two_farmers_stepped i) = map_option pos (objs two_farmers i))"
proof -
  note t = C10_agents_placed_once_within_width_bounds[OF two_farmers_init]
  have a: "\<exists>a x y. objs two_farmers 0 = Some a \<and> pos a = Some (x, y) \<and>
      1 \<le> x \<and> x \<le> 4 - 2 \<and> 1 \<le> y \<and> y \<le> 4 - 2 \<and>
      (\<forall>c. count_list (grid_cells two_farmers c) 0 = (if c = (x, y) then 1 else 0))"
    by (rule t[THEN conjunct1, rule_format, of 0]) simp
  have b: "\<exists>a x y. objs two_farmers 1 = Some a \<and> pos a = Some (x, y) \<and>
      0 < x \<and> x < 4 - 1 \<and> 0 < y \<and> y < 4 - 1"
    by (rule t[THEN conjunct2, THEN conjunct2, THEN conjunct1, rule_format, of 1]) simp_all
  have c: "grid_cells two_farmers_stepped = grid_cells two_farmers \<and>
      (\<forall>i. map_option pos (objs two_farmers_stepped i) = map_option pos (objs two_farmers i))"
    by (rule t[THEN conjunct2, THEN conjunct1, rule_format, OF two_farmers_step])
  show ?thesis
    by (intro conjI two_farmers_init a b two_farmers_step c[THEN conjunct1] c[THEN conjunct2])
qed

end
